theory Spec2Isabelle
  imports Main
begin

section \<open>The resolution context of jonson (context.go)\<close>

subsection \<open>Type identities\<close>

text \<open>
  A \<open>reflect.Type\<close> is compared with \<open>==\<close> and printed with \<open>String()\<close>. The model keeps
  what \<open>Require\<close> looks at: the kind of the type, the element type of a pointer, and the
  name. Every kind other than pointer, struct and interface is \<open>Other\<close>.
\<close>

datatype rtype = Ptr rtype | Struct string | Interface string | Other string

datatype reflect_Kind = KPtr | KStruct | KInterface | KOther

fun Kind :: "rtype \<Rightarrow> reflect_Kind" where
  "Kind (Ptr t) = KPtr"
| "Kind (Struct n) = KStruct"
| "Kind (Interface n) = KInterface"
| "Kind (Other n) = KOther"

text \<open>\<open>rt.String()\<close>, which is also what \<open>fmt.Sprintf("%v", rt)\<close> prints.\<close>

fun type_string :: "rtype \<Rightarrow> string" where
  "type_string (Ptr t) = ''*'' @ type_string t"
| "type_string (Struct n) = n"
| "type_string (Interface n) = n"
| "type_string (Other n) = n"

text \<open>\<open>var TypeContext = reflect.TypeOf((**Context)(nil)).Elem()\<close>\<close>

definition TypeContext :: rtype where
  "TypeContext = Ptr (Struct ''jonson.Context'')"

subsection \<open>Values, errors and panics\<close>

text \<open>
  A value of type \<open>any\<close> is \<open>nil\<close> or an instance; the number is the identity of the
  instance, so that "the identical cached value instance" is equality of \<open>any\<close>.
\<close>

datatype any = AnyNil | Obj nat

text \<open>
  Modelled from the spec: the protocol error \<open>*Error\<close>, its \<open>ErrorData\<close> and
  \<open>CloneWithData\<close> are declared outside context.go. The shape is
  \<open>{ code, message, data?: { debug?, details?: [error...] } }\<close>, and a clone carries the
  code and message of the error it is cloned from and the data it is given.
\<close>

datatype Error = Error (Code: int) (Message: string) (Data: "ErrorData option")
  and ErrorData = ErrorData (Debug: string) (Details: "Error list")

definition CloneWithData :: "Error \<Rightarrow> ErrorData \<Rightarrow> Error" where
  "CloneWithData e d = Error (Code e) (Message e) (Some d)"

text \<open>
  A non-nil value of the interface \<open>error\<close>, by its dynamic type:
  \<^item> \<open>ProtocolError a x\<close>: a \<open>*Error\<close>, the pointer \<open>a\<close> and the \<open>Error\<close> it points to;
  \<^item> \<open>OtherError a m\<close>: a pointer of another type, the pointer \<open>a\<close> and the text \<open>m\<close> that
    \<open>Error()\<close> returns;
  \<^item> \<open>ValueError t v m\<close>: a value of a comparable type \<open>t\<close> that is not a pointer; \<open>v\<close> is
    the value, \<open>None\<close> for a value that is not equal to itself (one that holds a NaN);
  \<^item> \<open>UncomparableError t m\<close>: a value of a type \<open>t\<close> that is not comparable (a slice, a
    map, a func, or a struct or array that holds one).
  The interface value \<open>nil\<close> is \<open>None\<close> of \<open>go_error option\<close>.
\<close>

datatype go_error =
    ProtocolError nat Error
  | OtherError nat string
  | ValueError string "nat option" string
  | UncomparableError string string

text \<open>
  A panic unwinds the call. \<open>PanicMsg m\<close> is \<open>panic(errors.New(m))\<close> or
  \<open>panic(fmt.Errorf(...))\<close> with the text \<open>m\<close>; \<open>PanicWith e\<close> is a collaborator's
  \<open>panic(e)\<close>, as in \<open>panic(jonson.ErrUnauthenticated)\<close>.
\<close>

datatype panic = PanicMsg string | PanicWith go_error

text \<open>
  \<open>a == b\<close> on two values of the interface \<open>error\<close>. Both nil: true. Different dynamic
  types, or one of them nil: false. The same dynamic type: two pointers are equal when
  they are the same pointer, whatever they point to; two values of a comparable type
  are equal when the values are, and a value that holds a NaN equals nothing; on two
  values of a type that is not comparable the comparison is a run-time panic. (An
  address holds one object, so two pointers to the same address have the same type.)
\<close>

fun error_eq :: "go_error option \<Rightarrow> go_error option \<Rightarrow> panic + bool" where
  "error_eq None None = Inr True"
| "error_eq (Some (ProtocolError a x)) (Some (ProtocolError b y)) = Inr (a = b)"
| "error_eq (Some (OtherError a x)) (Some (OtherError b y)) = Inr (a = b)"
| "error_eq (Some (ValueError t v x)) (Some (ValueError u w y)) = Inr (t = u \<and> v \<noteq> None \<and> v = w)"
| "error_eq (Some (UncomparableError t x)) (Some (UncomparableError u y)) =
     (if t = u then Inl (PanicMsg (''runtime error: comparing uncomparable type '' @ t)) else Inr False)"
| "error_eq _ _ = Inr False"

subsection \<open>The context and its collaborators\<close>

text \<open>\<open>type valueItem struct { rt reflect.Type; val any; valid bool }\<close>\<close>

record valueItem =
  rt :: rtype
  val :: any
  valid :: bool

text \<open>
  The calls made to the collaborators, in the order they are made: \<open>Provided T\<close> is
  \<open>c.provider.Provide(c, T)\<close>, and \<open>Finalized v errs\<close> is \<open>v.Finalize(errs)\<close>.
\<close>

datatype call = Provided rtype | Finalized any "go_error list"

text \<open>
  The mutable fields of \<open>Context\<close>: \<open>values\<close> and \<open>finalized\<close>. The field \<open>calls\<close> is
  not in the struct: it records the collaborator calls made so far, so that "the Provider
  is invoked once" and "V2's finalizer runs before V1's" are statements about a state.
  The fields \<open>provider\<close> and \<open>methodHandler\<close> never change and are in
  \<open>collaborators\<close> below; \<open>parent\<close> is only read by \<open>Deadline\<close>, \<open>Done\<close>, \<open>Err\<close> and
  \<open>Value\<close>.
\<close>

record Context =
  "values" :: "valueItem list"
  finalized :: bool
  calls :: "call list"

text \<open>
  Modelled from the spec: the code of a Provider and of a value's \<open>Finalize\<close> method is
  outside context.go. Following the spec, such a callback returns a result, raises
  (\<open>Raise p\<close> is \<open>panic(p)\<close>), or calls back into \<open>Require\<close> on the same context and goes
  on with the value it gets.
\<close>

datatype 'r prog = Return 'r | Raise panic | RequireThen rtype "any \<Rightarrow> 'r prog"

text \<open>
  What a context is wired to. \<open>provider\<close> gives the body of \<open>Provide(c, T)\<close>;
  \<open>Finalizer v\<close> is the body of \<open>v.Finalize\<close> when the dynamic type of \<open>v\<close> has that
  method; \<open>Encode\<close> is \<open>c.methodHandler.errorEncoder.Encode\<close>; \<open>ErrInternal\<close> is the
  package's internal error; \<open>Stack\<close> is the text \<open>debug.Stack()\<close> returns; \<open>NewError\<close> is
  the address of the \<open>*Error\<close> that \<open>Finalize\<close> allocates for its result.
\<close>

record collaborators =
  provider :: "rtype \<Rightarrow> any prog"
  Finalizer :: "any \<Rightarrow> (go_error list \<Rightarrow> go_error option prog) option"
  Encode :: "string \<Rightarrow> string"
  ErrInternal :: Error
  Stack :: string
  NewError :: nat

text \<open>
  Running a callback on a state, given what \<open>Require\<close> does. The result is \<open>None\<close> when
  a nested \<open>Require\<close> does not return; \<open>Inl p\<close> is a panic, which ends the callback.
\<close>

primrec exec :: "(rtype \<Rightarrow> Context \<Rightarrow> ((panic + any) \<times> Context) option) \<Rightarrow> 'r prog \<Rightarrow>
    Context \<Rightarrow> ((panic + 'r) \<times> Context) option" where
  "exec req (Return r) c = Some (Inr r, c)"
| "exec req (Raise p) c = Some (Inl p, c)"
| "exec req (RequireThen T k) c =
     (case req T c of
        None \<Rightarrow> None
      | Some (Inl p, c') \<Rightarrow> Some (Inl p, c')
      | Some (Inr v, c') \<Rightarrow> exec req (k v) c')"

subsection \<open>StoreValue, Invalidate, NewContext\<close>

text \<open>
  \<open>StoreValue\<close> panics at the first slot of the type, whatever its \<open>valid\<close> flag, and
  appends a valid slot otherwise. It does not read \<open>finalized\<close>.
\<close>

definition StoreValue :: "rtype \<Rightarrow> any \<Rightarrow> Context \<Rightarrow> (panic + unit) \<times> Context" where
  "StoreValue T v c =
     (case find (\<lambda>it. rt it = T) (values c) of
        Some it \<Rightarrow> (Inl (PanicMsg (''value of type '' @ type_string T @ '' is already stored'')), c)
      | None \<Rightarrow> (Inr (), c\<lparr>values := values c @ [\<lparr>rt = T, val = v, valid = True\<rparr>]\<rparr>))"

text \<open>\<open>Invalidate\<close> keeps, in order, the slots whose type is not among the arguments.\<close>

definition Invalidate :: "rtype list \<Rightarrow> Context \<Rightarrow> Context" where
  "Invalidate ts c = c\<lparr>values := filter (\<lambda>v. rt v \<notin> set ts) (values c)\<rparr>"

text \<open>
  \<open>NewContext\<close> stores the context under its own type; \<open>self\<close> is the pointer to the new
  context. On the empty store \<open>StoreValue\<close> cannot panic.
\<close>

definition NewContext :: "any \<Rightarrow> Context" where
  "NewContext self = snd (StoreValue TypeContext self \<lparr>values = [], finalized = False, calls = []\<rparr>)"

subsection \<open>Require\<close>

text \<open>
  The loop of \<open>debugRecursionLoop\<close> collects the printed types of the slots from the
  front of the store and stops at the first slot that is not valid.
\<close>

fun recursion_chain :: "valueItem list \<Rightarrow> string list" where
  "recursion_chain [] = []"
| "recursion_chain (v # vs) = (if \<not> valid v then [] else type_string (rt v) # recursion_chain vs)"

text \<open>\<open>strings.Join(out, sep)\<close>\<close>

fun join :: "string list \<Rightarrow> string \<Rightarrow> string" where
  "join [] sep = []"
| "join [x] sep = x"
| "join (x # y # ys) sep = x @ sep @ join (y # ys) sep"

definition debugRecursionLoop :: "collaborators \<Rightarrow> Context \<Rightarrow> rtype \<Rightarrow> panic" where
  "debugRecursionLoop env c inst =
     PanicMsg (''recursion loop while resolving '' @ type_string inst @ '':'' @ [CHR 0x0A]
       @ ''-----------'' @ [CHR 0x0A]
       @ join (recursion_chain (values c)) ([CHR 0x0A] @ ''--> '') @ [CHR 0x0A]
       @ ''-------------'' @ [CHR 0x0A]
       @ Stack env)"

text \<open>
  \<open>Require\<close>. The number \<open>n\<close> bounds how deep Providers may nest (a Provider calling
  \<open>Require\<close>, whose Provider calls \<open>Require\<close>, ...): the result is \<open>None\<close> when the nesting
  goes deeper, \<open>Inl\<close> a panic, \<open>Inr\<close> the value returned. The pointer \<open>v\<close> of the source
  is the slot at position \<open>length (values c)\<close>, where it is appended: a callback can only
  call \<open>Require\<close>, which appends to the store and writes to slots appended later.
\<close>

function Require :: "nat \<Rightarrow> collaborators \<Rightarrow> rtype \<Rightarrow> Context \<Rightarrow> ((panic + any) \<times> Context) option" where
  "Require n env inst c =
     (if finalized c then Some (Inl (PanicMsg ''context is already finalized''), c)
      else if (Kind inst \<noteq> KPtr \<or> (case inst of Ptr e \<Rightarrow> Kind e \<noteq> KStruct | _ \<Rightarrow> True))
                \<and> Kind inst \<noteq> KInterface
        then Some (Inl (PanicMsg ''inst must either be a ptr or an interface''), c)
      else case find (\<lambda>it. rt it = inst) (values c) of
        Some it \<Rightarrow>
          if \<not> valid it then Some (Inl (debugRecursionLoop env c inst), c)
          else Some (Inr (val it), c)
      | None \<Rightarrow>
          (case n of
             0 \<Rightarrow> None
           | Suc m \<Rightarrow>
               let i = length (values c);
                   c1 = c\<lparr>values := values c @ [\<lparr>rt = inst, val = AnyNil, valid = False\<rparr>],
                          calls := calls c @ [Provided inst]\<rparr>
               in case exec (\<lambda>T s. Require m env T s) (provider env inst) c1 of
                    None \<Rightarrow> None
                  | Some (Inl p, c2) \<Rightarrow> Some (Inl p, c2)
                  | Some (Inr x, c2) \<Rightarrow>
                      Some (Inr x, c2\<lparr>values := (values c2)[i := ((values c2 ! i)\<lparr>val := x, valid := True\<rparr>)]\<rparr>)))"
  by pat_completeness auto
termination
  by (relation "measure (\<lambda>(n, env, inst, c). n)") auto

declare Require.simps [simp del]

subsection \<open>Finalize\<close>

text \<open>
  The type assertion \<open>c.values[i].val.(Finalizeable)\<close>: it fails on \<open>nil\<close>, which is
  what a slot holds while it is reserved.
\<close>

definition as_Finalizeable :: "collaborators \<Rightarrow> any \<Rightarrow> (go_error list \<Rightarrow> go_error option prog) option" where
  "as_Finalizeable env v = (case v of AnyNil \<Rightarrow> None | Obj a \<Rightarrow> Finalizer env (Obj a))"

text \<open>
  The loop \<open>for i := len(c.values) - 1; i >= 0; i--\<close>. The argument \<open>Suc i\<close> stands for
  the index \<open>i\<close> about to be visited, \<open>0\<close> for the end of the loop. Reading
  \<open>c.values[i]\<close> out of range is a run-time panic.
\<close>

fun finalize_loop :: "nat \<Rightarrow> collaborators \<Rightarrow> nat \<Rightarrow> go_error list \<Rightarrow> Context \<Rightarrow>
    ((panic + go_error list) \<times> Context) option" where
  "finalize_loop n env 0 errors c = Some (Inr errors, c)"
| "finalize_loop n env (Suc i) errors c =
     (if length (values c) \<le> i then Some (Inl (PanicMsg ''index out of range''), c)
      else case as_Finalizeable env (val (values c ! i)) of
        None \<Rightarrow> finalize_loop n env i errors c
      | Some f \<Rightarrow>
          (case exec (Require n env) (f errors)
                  (c\<lparr>calls := calls c @ [Finalized (val (values c ! i)) errors]\<rparr>) of
             None \<Rightarrow> None
           | Some (Inl p, c') \<Rightarrow> Some (Inl p, c')
           | Some (Inr None, c') \<Rightarrow> finalize_loop n env i errors c'
           | Some (Inr (Some e), c') \<Rightarrow> finalize_loop n env i (errors @ [e]) c'))"

text \<open>
  The loop "remodel sub errors": a \<open>*Error\<close> is taken as it is, any other error becomes a
  clone of \<open>ErrInternal\<close> whose \<open>Debug\<close> is the encoded text of the error.
\<close>

definition remodel :: "collaborators \<Rightarrow> go_error \<Rightarrow> Error" where
  "remodel env e =
     (case e of
        ProtocolError a x \<Rightarrow> x
      | OtherError a m \<Rightarrow> CloneWithData (ErrInternal env) (ErrorData (Encode env m) [])
      | ValueError t v m \<Rightarrow> CloneWithData (ErrInternal env) (ErrorData (Encode env m) [])
      | UncomparableError t m \<Rightarrow> CloneWithData (ErrInternal env) (ErrorData (Encode env m) []))"

text \<open>
  \<open>Finalize\<close>. The slice \<open>errs\<close> is filled and not read again: the error returned is built
  with \<open>Details: []*Error{}\<close>. In \<open>len(errors) == 1 && errors[0] == err\<close> the comparison
  is made only when the length is 1, and it may panic; by then \<open>c.values\<close> is nil. The
  number \<open>n\<close> is the bound given to a \<open>Require\<close> that a \<open>Finalize\<close> method calls.
\<close>

definition Finalize :: "nat \<Rightarrow> collaborators \<Rightarrow> go_error option \<Rightarrow> Context \<Rightarrow>
    ((panic + go_error option) \<times> Context) option" where
  "Finalize n env err c =
     (if finalized c then Some (Inr err, c)
      else
        let c1 = c\<lparr>finalized := True\<rparr>;
            errors0 = (case err of None \<Rightarrow> [] | Some e \<Rightarrow> [e])
        in case finalize_loop n env (length (values c1)) errors0 c1 of
             None \<Rightarrow> None
           | Some (Inl p, c2) \<Rightarrow> Some (Inl p, c2)
           | Some (Inr errors, c2) \<Rightarrow>
               let c3 = c2\<lparr>values := []\<rparr> in
               if length errors = 0 then Some (Inr None, c3)
               else
                 case (if length errors = 1 then error_eq (Some (errors ! 0)) err else Inr False) of
                   Inl p \<Rightarrow> Some (Inl p, c3)
                 | Inr True \<Rightarrow> Some (Inr err, c3)
                 | Inr False \<Rightarrow>
                     let errs = map (remodel env) errors in
                     Some (Inr (Some (ProtocolError (NewError env)
                             (CloneWithData (ErrInternal env)
                                (ErrorData (Encode env ''finalization failed'') [])))), c3))"

subsection \<open>Notions used to state the properties\<close>

text \<open>
  The types \<open>Require\<close> accepts: a pointer to a struct, or an interface.
\<close>

definition requirable :: "rtype \<Rightarrow> bool" where
  "requirable T = (case T of Ptr (Struct n) \<Rightarrow> True | Interface n \<Rightarrow> True | _ \<Rightarrow> False)"

text \<open>The errors whose dynamic type is a pointer: \<open>==\<close> on them is pointer identity.\<close>

fun pointer_error :: "go_error \<Rightarrow> bool" where
  "pointer_error (ProtocolError a x) = True"
| "pointer_error (OtherError a m) = True"
| "pointer_error (ValueError t v m) = False"
| "pointer_error (UncomparableError t m) = False"

text \<open>The type identities that have a slot.\<close>

definition slot_types :: "Context \<Rightarrow> rtype set" where
  "slot_types c = rt ` set (values c)"

text \<open>
  What a \<open>Require\<close> may do to a state: the \<open>finalized\<close> flag and the slots already there
  stay as they are, slots are appended for types that had none, and the Provider is
  called for types that had none.
\<close>

definition grows :: "Context \<Rightarrow> Context \<Rightarrow> bool" where
  "grows c c' \<longleftrightarrow>
     finalized c' = finalized c \<and>
     (\<exists>new evs. values c' = values c @ new \<and> calls c' = calls c @ evs \<and>
        (\<forall>it \<in> set new. rt it \<notin> slot_types c) \<and>
        (\<forall>T. Provided T \<in> set evs \<longrightarrow> T \<notin> slot_types c) \<and>
        (\<forall>v es. Finalized v es \<notin> set evs))"

text \<open>
  What a \<open>Finalize\<close> method yields when it runs on a finalized context: its result, its
  own panic, or the panic of the \<open>Require\<close> it calls.
\<close>

definition finalizer_outcome :: "go_error option prog \<Rightarrow> panic + go_error option" where
  "finalizer_outcome p =
     (case p of
        Return r \<Rightarrow> Inr r
      | Raise q \<Rightarrow> Inl q
      | RequireThen T k \<Rightarrow> Inl (PanicMsg ''context is already finalized''))"

text \<open>
  A \<open>Finalize\<close> body in which a call to \<open>Require\<close> is replaced by the panic
  \<open>Require\<close> raises on a finalized context.
\<close>

definition fail_fast :: "go_error option prog \<Rightarrow> go_error option prog" where
  "fail_fast p = (case p of RequireThen U k \<Rightarrow> Raise (PanicMsg ''context is already finalized'') | _ \<Rightarrow> p)"

text \<open>
  The teardown as the specification words it, over the stored values from the most
  recently acquired to the least recently acquired: each value that has the finalize
  capability is invoked with the errors accumulated so far, and a failure it returns is
  appended to them. The result is the list of invocations and the accumulated errors
  (or the panic that ended the walk).
\<close>

fun teardown_spec :: "collaborators \<Rightarrow> any list \<Rightarrow> go_error list \<Rightarrow> call list \<times> (panic + go_error list)" where
  "teardown_spec env [] errs = ([], Inr errs)"
| "teardown_spec env (v # vs) errs =
     (case as_Finalizeable env v of
        None \<Rightarrow> teardown_spec env vs errs
      | Some f \<Rightarrow>
          (case finalizer_outcome (f errs) of
             Inl p \<Rightarrow> ([Finalized v errs], Inl p)
           | Inr None \<Rightarrow>
               (Finalized v errs # fst (teardown_spec env vs errs), snd (teardown_spec env vs errs))
           | Inr (Some e) \<Rightarrow>
               (Finalized v errs # fst (teardown_spec env vs (errs @ [e])),
                snd (teardown_spec env vs (errs @ [e])))))"

text \<open>The value whose \<open>Finalize\<close> a call invoked, if the call is one.\<close>

fun finalized_value :: "call \<Rightarrow> any option" where
  "finalized_value (Finalized v es) = Some v"
| "finalized_value (Provided T) = None"

subsection \<open>A wiring to run the model on\<close>

definition tDB :: rtype where "tDB = Ptr (Struct ''app.DB'')"
definition tSession :: rtype where "tSession = Ptr (Struct ''app.Session'')"
definition tPrivate :: rtype where "tPrivate = Ptr (Struct ''app.Private'')"
definition tA :: rtype where "tA = Ptr (Struct ''app.A'')"
definition tB :: rtype where "tB = Ptr (Struct ''app.B'')"

text \<open>
  \<open>DB\<close> is provided directly and its \<open>Finalize\<close> fails; \<open>Session\<close> needs \<open>DB\<close> and its
  \<open>Finalize\<close> succeeds; the Provider of \<open>Private\<close> panics; \<open>A\<close> needs \<open>B\<close> and \<open>B\<close>
  needs \<open>A\<close>. The value \<open>Obj 15\<close> has a \<open>Finalize\<close> that calls \<open>Require\<close>. The encoder is
  the identity, as the debug secret.
\<close>

definition demo :: collaborators where
  "demo = \<lparr>
     provider = (\<lambda>T.
       if T = tDB then Return (Obj 11)
       else if T = tSession then RequireThen tDB (\<lambda>db. Return (Obj 12))
       else if T = tPrivate then Raise (PanicWith (ProtocolError 10 (Error (-32001) ''Not authenticated'' None)))
       else if T = tA then RequireThen tB (\<lambda>b. Return (Obj 13))
       else if T = tB then RequireThen tA (\<lambda>a. Return (Obj 14))
       else Return AnyNil),
     Finalizer = (\<lambda>v.
       if v = Obj 11 then Some (\<lambda>errs. Return (Some (OtherError 11 ''db close failed'')))
       else if v = Obj 12 then Some (\<lambda>errs. Return None)
       else if v = Obj 15 then Some (\<lambda>errs. RequireThen tDB (\<lambda>db. Return None))
       else None),
     Encode = (\<lambda>s. s),
     ErrInternal = Error (-32000) ''Internal server error'' None,
     Stack = ''goroutine 1 [running]'',
     NewError = 100\<rparr>"

text \<open>A fresh context, whose own pointer is \<open>Obj 0\<close>.\<close>

definition ctx0 :: Context where
  "ctx0 = NewContext (Obj 0)"

text \<open>The context after \<open>Require(DB)\<close> on the fresh context.\<close>

definition ctx_db :: Context where
  "ctx_db = \<lparr>values = [\<lparr>rt = TypeContext, val = Obj 0, valid = True\<rparr>, \<lparr>rt = tDB, val = Obj 11, valid = True\<rparr>],
     finalized = False, calls = [Provided tDB]\<rparr>"

text \<open>The context after \<open>Require(Session)\<close> on the fresh context.\<close>

definition ctx_session :: Context where
  "ctx_session = \<lparr>values = [\<lparr>rt = TypeContext, val = Obj 0, valid = True\<rparr>,
                            \<lparr>rt = tSession, val = Obj 12, valid = True\<rparr>,
                            \<lparr>rt = tDB, val = Obj 11, valid = True\<rparr>],
     finalized = False, calls = [Provided tSession, Provided tDB]\<rparr>"

text \<open>The context \<open>ctx_db\<close> after \<open>Finalize(nil)\<close>.\<close>

definition ctx_db_done :: Context where
  "ctx_db_done = \<lparr>values = [], finalized = True, calls = [Provided tDB, Finalized (Obj 11) []]\<rparr>"

text \<open>A context that stores \<open>Obj 15\<close>, whose \<open>Finalize\<close> calls \<open>Require\<close>.\<close>

definition tCloser :: rtype where
  "tCloser = Interface ''app.Closer''"

definition ctx_reenter :: Context where
  "ctx_reenter = \<lparr>values = [\<lparr>rt = TypeContext, val = Obj 0, valid = True\<rparr>, \<lparr>rt = tCloser, val = Obj 15, valid = True\<rparr>],
     finalized = False, calls = []\<rparr>"

text \<open>The context \<open>ctx_db\<close> after \<open>Invalidate(DB)\<close> and \<open>Require(DB)\<close>.\<close>

definition ctx_db_again :: Context where
  "ctx_db_again = \<lparr>values = [\<lparr>rt = TypeContext, val = Obj 0, valid = True\<rparr>, \<lparr>rt = tDB, val = Obj 11, valid = True\<rparr>],
     finalized = False, calls = [Provided tDB, Provided tDB]\<rparr>"

text \<open>The context \<open>ctx_db\<close> after \<open>Require(Session)\<close>, whose Provider requires \<open>DB\<close>.\<close>

definition ctx_db_session :: Context where
  "ctx_db_session = \<lparr>values = [\<lparr>rt = TypeContext, val = Obj 0, valid = True\<rparr>,
                               \<lparr>rt = tDB, val = Obj 11, valid = True\<rparr>,
                               \<lparr>rt = tSession, val = Obj 12, valid = True\<rparr>],
     finalized = False, calls = [Provided tDB, Provided tSession]\<rparr>"

text \<open>The fresh context after \<open>Require(Private)\<close>, whose Provider panics.\<close>

definition ctx_private :: Context where
  "ctx_private = \<lparr>values = [\<lparr>rt = TypeContext, val = Obj 0, valid = True\<rparr>,
                            \<lparr>rt = tPrivate, val = AnyNil, valid = False\<rparr>],
     finalized = False, calls = [Provided tPrivate]\<rparr>"

text \<open>The fresh context after \<open>Require(A)\<close>, which runs into the cycle of \<open>A\<close> and \<open>B\<close>.\<close>

definition ctx_cycle :: Context where
  "ctx_cycle = \<lparr>values = [\<lparr>rt = TypeContext, val = Obj 0, valid = True\<rparr>,
                          \<lparr>rt = tA, val = AnyNil, valid = False\<rparr>,
                          \<lparr>rt = tB, val = AnyNil, valid = False\<rparr>],
     finalized = False, calls = [Provided tA, Provided tB]\<rparr>"

section \<open>Properties\<close>

subsection \<open>Require, case by case\<close>

lemma kind_check_iff:
  "((Kind T \<noteq> KPtr \<or> (case T of Ptr e \<Rightarrow> Kind e \<noteq> KStruct | _ \<Rightarrow> True)) \<and> Kind T \<noteq> KInterface)
     = (\<not> requirable T)"
  by (cases T rule: Kind.cases; simp add: requirable_def split: rtype.splits)

lemma Require_finalized:
  "finalized c \<Longrightarrow> Require n env T c = Some (Inl (PanicMsg ''context is already finalized''), c)"
  by (subst Require.simps) simp

lemma Require_bad_kind:
  "\<not> finalized c \<Longrightarrow> \<not> requirable T \<Longrightarrow>
   Require n env T c = Some (Inl (PanicMsg ''inst must either be a ptr or an interface''), c)"
  by (subst Require.simps, subst kind_check_iff) simp

lemma Require_found:
  "\<not> finalized c \<Longrightarrow> requirable T \<Longrightarrow> find (\<lambda>it. rt it = T) (values c) = Some it \<Longrightarrow>
   Require n env T c =
     (if \<not> valid it then Some (Inl (debugRecursionLoop env c T), c) else Some (Inr (val it), c))"
  by (subst Require.simps, subst kind_check_iff) simp

lemma Require_0_fresh:
  "\<not> finalized c \<Longrightarrow> requirable T \<Longrightarrow> find (\<lambda>it. rt it = T) (values c) = None \<Longrightarrow>
   Require 0 env T c = None"
  by (subst Require.simps, subst kind_check_iff) simp

lemma Require_Suc_fresh:
  "\<not> finalized c \<Longrightarrow> requirable T \<Longrightarrow> find (\<lambda>it. rt it = T) (values c) = None \<Longrightarrow>
   Require (Suc m) env T c =
     (case exec (Require m env) (provider env T)
             (c\<lparr>values := values c @ [\<lparr>rt = T, val = AnyNil, valid = False\<rparr>],
                calls := calls c @ [Provided T]\<rparr>) of
        None \<Rightarrow> None
      | Some (Inl p, c2) \<Rightarrow> Some (Inl p, c2)
      | Some (Inr x, c2) \<Rightarrow>
          Some (Inr x, c2\<lparr>values := (values c2)[length (values c) :=
                  ((values c2 ! length (values c))\<lparr>val := x, valid := True\<rparr>)]\<rparr>))"
  by (subst Require.simps, subst kind_check_iff) (simp add: Let_def)

lemma exec_finalized:
  "finalized c \<Longrightarrow> exec (Require n env) p c =
     (case finalizer_outcome p of Inl q \<Rightarrow> Some (Inl q, c) | Inr r \<Rightarrow> Some (Inr r, c))"
  by (cases p) (simp_all add: Require_finalized finalizer_outcome_def)

subsection \<open>What Require changes\<close>

lemma find_None_slot_types: "find (\<lambda>it. rt it = T) (values c) = None \<longleftrightarrow> T \<notin> slot_types c"
  by (auto simp: find_None_iff slot_types_def)

lemma slot_types_append: "values c' = values c @ new \<Longrightarrow> slot_types c' = slot_types c \<union> rt ` set new"
  by (auto simp: slot_types_def)

lemma grows_refl: "grows c c"
  by (simp add: grows_def)

lemma grows_trans:
  assumes "grows a b" and "grows b c"
  shows "grows a c"
proof -
  from assms(1) obtain n1 e1 where 1: "finalized b = finalized a" "values b = values a @ n1"
      "calls b = calls a @ e1" "\<forall>it \<in> set n1. rt it \<notin> slot_types a"
      "\<forall>T. Provided T \<in> set e1 \<longrightarrow> T \<notin> slot_types a" "\<forall>v es. Finalized v es \<notin> set e1"
    unfolding grows_def by (elim conjE exE)
  from assms(2) obtain n2 e2 where 2: "finalized c = finalized b" "values c = values b @ n2"
      "calls c = calls b @ e2" "\<forall>it \<in> set n2. rt it \<notin> slot_types b"
      "\<forall>T. Provided T \<in> set e2 \<longrightarrow> T \<notin> slot_types b" "\<forall>v es. Finalized v es \<notin> set e2"
    unfolding grows_def by (elim conjE exE)
  have sub: "slot_types a \<subseteq> slot_types b"
    using slot_types_append[OF 1(2)] by blast
  show ?thesis
    unfolding grows_def
  proof (intro conjI exI)
    show "finalized c = finalized a" using 1(1) 2(1) by simp
    show "values c = values a @ (n1 @ n2)" using 1(2) 2(2) by simp
    show "calls c = calls a @ (e1 @ e2)" using 1(3) 2(3) by simp
    show "\<forall>it \<in> set (n1 @ n2). rt it \<notin> slot_types a"
      using 1(4) 2(4) sub by (simp only: set_append) blast
    show "\<forall>T. Provided T \<in> set (e1 @ e2) \<longrightarrow> T \<notin> slot_types a"
      using 1(5) 2(5) sub by (simp only: set_append) blast
    show "\<forall>v es. Finalized v es \<notin> set (e1 @ e2)"
      using 1(6) 2(6) by simp
  qed
qed

lemma exec_grows:
  assumes req: "\<And>T c r c'. req T c = Some (r, c') \<Longrightarrow> grows c c'"
  shows "exec req p c = Some (r, c') \<Longrightarrow> grows c c'"
proof (induction p arbitrary: c)
  case (Return x)
  then show ?case by (simp add: grows_refl)
next
  case (Raise x)
  then show ?case by (simp add: grows_refl)
next
  case (RequireThen T k)
  show ?case
  proof (cases "req T c")
    case None
    with RequireThen.prems show ?thesis by simp
  next
    case (Some a)
    obtain r1 c1 where a: "a = (r1, c1)" by (cases a)
    have g1: "grows c c1" using req Some a by blast
    show ?thesis
    proof (cases r1)
      case (Inl p)
      with RequireThen.prems Some a have "c' = c1" by simp
      with g1 show ?thesis by simp
    next
      case (Inr v)
      with RequireThen.prems Some a have "exec req (k v) c1 = Some (r, c')" by simp
      then have "grows c1 c'" using RequireThen.IH by blast
      with g1 show ?thesis by (rule grows_trans)
    qed
  qed
qed

text \<open>The shape of the state after a Require that found no slot.\<close>

lemma Require_fresh_shape_aux:
  assumes IH: "\<And>U s r s'. Require m env U s = Some (r, s') \<Longrightarrow> grows s s'"
    and nf: "\<not> finalized c" and rq: "requirable T"
    and none: "find (\<lambda>it. rt it = T) (values c) = None"
    and run: "Require (Suc m) env T c = Some (r, c')"
  shows "finalized c' = finalized c \<and>
     (\<exists>new evs. values c' = values c @ \<lparr>rt = T, val = (case r of Inl p \<Rightarrow> AnyNil | Inr x \<Rightarrow> x), valid = (\<not> isl r)\<rparr> # new
        \<and> calls c' = calls c @ Provided T # evs
        \<and> (\<forall>it \<in> set new. rt it \<notin> insert T (slot_types c))
        \<and> (\<forall>X. Provided X \<in> set evs \<longrightarrow> X \<notin> insert T (slot_types c))
        \<and> (\<forall>v es. Finalized v es \<notin> set evs))"
proof -
  let ?slot = "\<lparr>rt = T, val = AnyNil, valid = False\<rparr>"
  let ?c1 = "c\<lparr>values := values c @ [?slot], calls := calls c @ [Provided T]\<rparr>"
  obtain r2 c2 where ex: "exec (Require m env) (provider env T) ?c1 = Some (r2, c2)"
    using run by (cases "exec (Require m env) (provider env T) ?c1")
      (auto simp: Require_Suc_fresh[OF nf rq none])
  have "grows ?c1 c2" by (rule exec_grows[OF _ ex]) (rule IH)
  then obtain new evs where g: "finalized c2 = finalized c" "values c2 = (values c @ [?slot]) @ new"
      "calls c2 = (calls c @ [Provided T]) @ evs"
      "\<forall>it \<in> set new. rt it \<notin> slot_types ?c1"
      "\<forall>X. Provided X \<in> set evs \<longrightarrow> X \<notin> slot_types ?c1"
      "\<forall>v es. Finalized v es \<notin> set evs"
    unfolding grows_def by (elim conjE exE) simp
  have st: "slot_types ?c1 = insert T (slot_types c)"
    by (simp add: slot_types_def)
  have g4: "\<forall>it \<in> set new. rt it \<notin> insert T (slot_types c)"
    using g(4) unfolding st .
  have g5: "\<forall>X. Provided X \<in> set evs \<longrightarrow> X \<notin> insert T (slot_types c)"
    using g(5) unfolding st .
  have cs: "calls c2 = calls c @ Provided T # evs" using g(3) by simp
  have nth: "values c2 ! length (values c) = ?slot"
    using g(2) by (simp add: nth_append)
  have upd: "\<And>y. (values c2)[length (values c) := y] = values c @ y # new"
    using g(2) by (simp add: list_update_append)
  show ?thesis
  proof (cases r2)
    case (Inl p)
    with run ex have rc: "r = Inl p" "c' = c2"
      by (simp_all add: Require_Suc_fresh[OF nf rq none])
    have vs: "values c' = values c @ \<lparr>rt = T, val = (case r of Inl p \<Rightarrow> AnyNil | Inr x \<Rightarrow> x), valid = (\<not> isl r)\<rparr> # new"
      using rc g(2) by simp
    show ?thesis
      using g(1) vs cs g4 g5 g(6) rc(2) by blast
  next
    case (Inr x)
    with run ex have rc: "r = Inr x"
      "c' = c2\<lparr>values := (values c2)[length (values c) := ((values c2 ! length (values c))\<lparr>val := x, valid := True\<rparr>)]\<rparr>"
      by (simp_all add: Require_Suc_fresh[OF nf rq none])
    have vs: "values c' = values c @ \<lparr>rt = T, val = (case r of Inl p \<Rightarrow> AnyNil | Inr x \<Rightarrow> x), valid = (\<not> isl r)\<rparr> # new"
      using rc nth upd by simp
    have f: "finalized c' = finalized c" and cs': "calls c' = calls c @ Provided T # evs"
      using rc(2) g(1) cs by simp_all
    show ?thesis
      using f vs cs' g4 g5 g(6) by blast
  qed
qed

lemma Require_grows: "Require n env T c = Some (r, c') \<Longrightarrow> grows c c'"
proof (induction n arbitrary: T c r c')
  case 0
  show ?case
  proof (cases "finalized c \<or> \<not> requirable T")
    case True
    with 0 show ?thesis
      by (cases "finalized c") (auto simp: Require_finalized Require_bad_kind grows_refl)
  next
    case False
    then show ?thesis using 0
      by (cases "find (\<lambda>it. rt it = T) (values c)")
         (auto simp: Require_found Require_0_fresh grows_refl split: if_splits)
  qed
next
  case (Suc m)
  show ?case
  proof (cases "finalized c \<or> \<not> requirable T")
    case True
    with Suc.prems show ?thesis
      by (cases "finalized c") (auto simp: Require_finalized Require_bad_kind grows_refl)
  next
    case False
    show ?thesis
    proof (cases "find (\<lambda>it. rt it = T) (values c)")
      case (Some it)
      with False Suc.prems show ?thesis
        by (auto simp: Require_found grows_refl split: if_splits)
    next
      case None
      have nT: "T \<notin> slot_types c" using None by (simp add: find_None_slot_types)
      from False have nf: "\<not> finalized c" and rq: "requirable T" by simp_all
      have "finalized c' = finalized c \<and>
       (\<exists>new evs. values c' = values c @ \<lparr>rt = T, val = (case r of Inl p \<Rightarrow> AnyNil | Inr x \<Rightarrow> x), valid = (\<not> isl r)\<rparr> # new
        \<and> calls c' = calls c @ Provided T # evs
        \<and> (\<forall>it \<in> set new. rt it \<notin> insert T (slot_types c))
        \<and> (\<forall>X. Provided X \<in> set evs \<longrightarrow> X \<notin> insert T (slot_types c))
        \<and> (\<forall>v es. Finalized v es \<notin> set evs))"
        by (rule Require_fresh_shape_aux[OF _ nf rq None Suc.prems]) (rule Suc.IH)
      then obtain new evs where h: "finalized c' = finalized c"
        "values c' = values c @ \<lparr>rt = T, val = (case r of Inl p \<Rightarrow> AnyNil | Inr x \<Rightarrow> x), valid = (\<not> isl r)\<rparr> # new"
        "calls c' = calls c @ Provided T # evs"
        "\<forall>it \<in> set new. rt it \<notin> insert T (slot_types c)"
        "\<forall>X. Provided X \<in> set evs \<longrightarrow> X \<notin> insert T (slot_types c)"
        "\<forall>v es. Finalized v es \<notin> set evs"
        by blast
      have a: "\<forall>it \<in> set (\<lparr>rt = T, val = (case r of Inl p \<Rightarrow> AnyNil | Inr x \<Rightarrow> x), valid = (\<not> isl r)\<rparr> # new). rt it \<notin> slot_types c"
        using h(4) nT by simp
      have b: "\<forall>X. Provided X \<in> set (Provided T # evs) \<longrightarrow> X \<notin> slot_types c"
        using h(5) nT by (simp only: list.set) blast
      have d: "\<forall>v es. Finalized v es \<notin> set (Provided T # evs)"
        using h(6) by simp
      show ?thesis unfolding grows_def using h(1,2,3) a b d by blast
    qed
  qed
qed

lemma Require_fresh_shape:
  assumes nf: "\<not> finalized c" and rq: "requirable T"
    and none: "find (\<lambda>it. rt it = T) (values c) = None"
    and run: "Require n env T c = Some (r, c')"
  shows "finalized c' = finalized c \<and>
     (\<exists>new evs. values c' = values c @ \<lparr>rt = T, val = (case r of Inl p \<Rightarrow> AnyNil | Inr x \<Rightarrow> x), valid = (\<not> isl r)\<rparr> # new
        \<and> calls c' = calls c @ Provided T # evs
        \<and> (\<forall>it \<in> set new. rt it \<notin> insert T (slot_types c))
        \<and> (\<forall>X. Provided X \<in> set evs \<longrightarrow> X \<notin> insert T (slot_types c))
        \<and> (\<forall>v es. Finalized v es \<notin> set evs))"
proof (cases n)
  case 0
  with run nf rq none show ?thesis by (simp add: Require_0_fresh)
next
  case (Suc m)
  show ?thesis
    by (rule Require_fresh_shape_aux[OF _ nf rq none run[unfolded Suc]]) (rule Require_grows)
qed


subsection \<open>StoreValue\<close>

lemma find_Some_slot_types: "find (\<lambda>it. rt it = T) (values c) = Some it \<Longrightarrow> T \<in> slot_types c"
  using find_None_slot_types[of T c] by auto

lemma StoreValue_present:
  "\<exists>it \<in> set (values c). rt it = T \<Longrightarrow>
   StoreValue T v c = (Inl (PanicMsg (''value of type '' @ type_string T @ '' is already stored'')), c)"
  by (cases "find (\<lambda>it. rt it = T) (values c)") (auto simp: StoreValue_def find_None_iff)

lemma StoreValue_absent:
  "\<forall>it \<in> set (values c). rt it \<noteq> T \<Longrightarrow>
   StoreValue T v c = (Inr (), c\<lparr>values := values c @ [\<lparr>rt = T, val = v, valid = True\<rparr>]\<rparr>)"
  by (cases "find (\<lambda>it. rt it = T) (values c)") (auto simp: StoreValue_def find_Some_iff)

lemma Require_leaves_slot:
  assumes "\<not> finalized c" "requirable T" "Require n env T c = Some (r, c1)"
  shows "\<exists>it \<in> set (values c1). rt it = T"
proof (cases "find (\<lambda>it. rt it = T) (values c)")
  case None
  from Require_fresh_shape[OF assms(1,2) None assms(3)] show ?thesis by auto
next
  case (Some it)
  then have "it \<in> set (values c) \<and> rt it = T" by (auto simp: find_Some_iff)
  moreover have "c1 = c" using assms Some by (simp add: Require_found split: if_splits)
  ultimately show ?thesis by blast
qed

text \<open>
  C6: \<open>StoreValue(T, v)\<close> panics whenever the store holds a slot for \<open>T\<close>, valid or
  not, and leaves the context as it is; when there is none it appends a valid slot
  holding \<open>v\<close>. The existing slot may come from an earlier \<open>StoreValue\<close> or from a
  \<open>Require\<close>, whether that one returned a value or unwound.
\<close>

theorem StoreValue_duplicate_is_fatal:
  "((\<exists>it \<in> set (values c). rt it = T) \<longrightarrow>
      StoreValue T v c = (Inl (PanicMsg (''value of type '' @ type_string T @ '' is already stored'')), c))
   \<and> ((\<forall>it \<in> set (values c). rt it \<noteq> T) \<longrightarrow>
      StoreValue T v c = (Inr (), c\<lparr>values := values c @ [\<lparr>rt = T, val = v, valid = True\<rparr>]\<rparr>))
   \<and> (\<forall>c1 w. StoreValue T v c = (Inr (), c1) \<longrightarrow>
      StoreValue T w c1 = (Inl (PanicMsg (''value of type '' @ type_string T @ '' is already stored'')), c1))
   \<and> (\<forall>n env r c1 w. \<not> finalized c \<and> requirable T \<and> Require n env T c = Some (r, c1) \<longrightarrow>
      StoreValue T w c1 = (Inl (PanicMsg (''value of type '' @ type_string T @ '' is already stored'')), c1))"
proof (intro conjI allI impI)
  assume "\<exists>it \<in> set (values c). rt it = T"
  then show "StoreValue T v c = (Inl (PanicMsg (''value of type '' @ type_string T @ '' is already stored'')), c)"
    by (rule StoreValue_present)
next
  assume "\<forall>it \<in> set (values c). rt it \<noteq> T"
  then show "StoreValue T v c = (Inr (), c\<lparr>values := values c @ [\<lparr>rt = T, val = v, valid = True\<rparr>]\<rparr>)"
    by (rule StoreValue_absent)
next
  fix c1 w
  assume a: "StoreValue T v c = (Inr (), c1)"
  have "\<exists>it \<in> set (values c1). rt it = T"
    using a by (cases "find (\<lambda>it. rt it = T) (values c)") (auto simp: StoreValue_def)
  then show "StoreValue T w c1 = (Inl (PanicMsg (''value of type '' @ type_string T @ '' is already stored'')), c1)"
    by (rule StoreValue_present)
next
  fix n env r c1 w
  assume a: "\<not> finalized c \<and> requirable T \<and> Require n env T c = Some (r, c1)"
  then have "\<exists>it \<in> set (values c1). rt it = T"
    using Require_leaves_slot by blast
  then show "StoreValue T w c1 = (Inl (PanicMsg (''value of type '' @ type_string T @ '' is already stored'')), c1)"
    by (rule StoreValue_present)
qed

subsection \<open>The example wiring, evaluated\<close>

lemma ctx0_eq: "ctx0 = \<lparr>values = [\<lparr>rt = TypeContext, val = Obj 0, valid = True\<rparr>], finalized = False, calls = []\<rparr>"
  by (simp add: ctx0_def NewContext_def StoreValue_def)

lemma demo_types_neq [simp]:
  "tDB \<noteq> TypeContext" "tSession \<noteq> TypeContext" "tPrivate \<noteq> TypeContext" "tA \<noteq> TypeContext" "tB \<noteq> TypeContext"
  "TypeContext \<noteq> tDB" "TypeContext \<noteq> tSession" "TypeContext \<noteq> tPrivate" "TypeContext \<noteq> tA" "TypeContext \<noteq> tB"
  "tDB \<noteq> tSession" "tDB \<noteq> tPrivate" "tDB \<noteq> tA" "tDB \<noteq> tB"
  "tSession \<noteq> tDB" "tSession \<noteq> tPrivate" "tSession \<noteq> tA" "tSession \<noteq> tB"
  "tPrivate \<noteq> tDB" "tPrivate \<noteq> tSession" "tPrivate \<noteq> tA" "tPrivate \<noteq> tB"
  "tA \<noteq> tDB" "tA \<noteq> tSession" "tA \<noteq> tPrivate" "tA \<noteq> tB"
  "tB \<noteq> tDB" "tB \<noteq> tSession" "tB \<noteq> tPrivate" "tB \<noteq> tA"
  by (simp_all add: tDB_def tSession_def tPrivate_def tA_def tB_def TypeContext_def)

lemma demo_requirable [simp]:
  "requirable tDB" "requirable tSession" "requirable tPrivate" "requirable tA" "requirable tB" "requirable TypeContext"
  by (simp_all add: requirable_def tDB_def tSession_def tPrivate_def tA_def tB_def TypeContext_def)

lemma demo_fields [simp]:
  "provider demo tDB = Return (Obj 11)"
  "provider demo tSession = RequireThen tDB (\<lambda>db. Return (Obj 12))"
  "provider demo tPrivate = Raise (PanicWith (ProtocolError 10 (Error (-32001) ''Not authenticated'' None)))"
  "provider demo tA = RequireThen tB (\<lambda>b. Return (Obj 13))"
  "provider demo tB = RequireThen tA (\<lambda>a. Return (Obj 14))"
  "Encode demo = (\<lambda>s. s)"
  "ErrInternal demo = Error (-32000) ''Internal server error'' None"
  "Stack demo = ''goroutine 1 [running]''"
  "NewError demo = 100"
  by (simp_all add: demo_def)

lemma demo_finalizers [simp]:
  "as_Finalizeable demo AnyNil = None"
  "as_Finalizeable demo (Obj 0) = None"
  "as_Finalizeable demo (Obj 11) = Some (\<lambda>errs. Return (Some (OtherError 11 ''db close failed'')))"
  "as_Finalizeable demo (Obj 12) = Some (\<lambda>errs. Return None)"
  "as_Finalizeable demo (Obj 15) = Some (\<lambda>errs. RequireThen tDB (\<lambda>db. Return None))"
  by (simp_all add: demo_def as_Finalizeable_def)

lemma ctx0_fields [simp]:
  "values ctx0 = [\<lparr>rt = TypeContext, val = Obj 0, valid = True\<rparr>]"
  "finalized ctx0 = False" "calls ctx0 = []"
  by (simp_all add: ctx0_eq)


lemma demo_Require_DB: "Require (Suc 0) demo tDB ctx0 = Some (Inr (Obj 11), ctx_db)"
  by (simp add: Require_Suc_fresh ctx_db_def ctx0_eq)

theorem StoreValue_duplicate_is_fatal_witness:
  "StoreValue TypeContext (Obj 19) ctx0 =
       (Inl (PanicMsg (''value of type '' @ type_string TypeContext @ '' is already stored'')), ctx0)
   \<and> StoreValue tDB (Obj 11) ctx0 =
       (Inr (), ctx0\<lparr>values := values ctx0 @ [\<lparr>rt = tDB, val = Obj 11, valid = True\<rparr>]\<rparr>)
   \<and> StoreValue tDB (Obj 12) (ctx0\<lparr>values := values ctx0 @ [\<lparr>rt = tDB, val = Obj 11, valid = True\<rparr>]\<rparr>) =
       (Inl (PanicMsg (''value of type '' @ type_string tDB @ '' is already stored'')),
        ctx0\<lparr>values := values ctx0 @ [\<lparr>rt = tDB, val = Obj 11, valid = True\<rparr>]\<rparr>)
   \<and> Require (Suc 0) demo tDB ctx0 = Some (Inr (Obj 11), ctx_db)
   \<and> StoreValue tDB (Obj 12) ctx_db =
       (Inl (PanicMsg (''value of type '' @ type_string tDB @ '' is already stored'')), ctx_db)"
proof -
  have h1: "\<exists>it \<in> set (values ctx0). rt it = TypeContext" by simp
  have h2: "\<forall>it \<in> set (values ctx0). rt it \<noteq> tDB" by simp
  have h3: "\<not> finalized ctx0 \<and> requirable tDB \<and> Require (Suc 0) demo tDB ctx0 = Some (Inr (Obj 11), ctx_db)"
    by (simp add: demo_Require_DB)
  note 1 = StoreValue_duplicate_is_fatal[of ctx0 TypeContext "Obj 19"]
  note 2 = StoreValue_duplicate_is_fatal[of ctx0 tDB "Obj 11"]
  from 1 h1 have a: "StoreValue TypeContext (Obj 19) ctx0 =
       (Inl (PanicMsg (''value of type '' @ type_string TypeContext @ '' is already stored'')), ctx0)"
    by blast
  from 2 h2 have b: "StoreValue tDB (Obj 11) ctx0 =
       (Inr (), ctx0\<lparr>values := values ctx0 @ [\<lparr>rt = tDB, val = Obj 11, valid = True\<rparr>]\<rparr>)"
    by blast
  from 2 b have c: "StoreValue tDB (Obj 12) (ctx0\<lparr>values := values ctx0 @ [\<lparr>rt = tDB, val = Obj 11, valid = True\<rparr>]\<rparr>) =
       (Inl (PanicMsg (''value of type '' @ type_string tDB @ '' is already stored'')),
        ctx0\<lparr>values := values ctx0 @ [\<lparr>rt = tDB, val = Obj 11, valid = True\<rparr>]\<rparr>)"
    by blast
  from 2 h3 have d: "StoreValue tDB (Obj 12) ctx_db =
       (Inl (PanicMsg (''value of type '' @ type_string tDB @ '' is already stored'')), ctx_db)"
    by blast
  from a b c d h3 show ?thesis by blast
qed

subsection \<open>Finalize\<close>

lemma finalize_loop_spec:
  "finalized c \<Longrightarrow> i \<le> length (values c) \<Longrightarrow>
   finalize_loop n env i errors c =
     Some (snd (teardown_spec env (rev (take i (map val (values c)))) errors),
           c\<lparr>calls := calls c @ fst (teardown_spec env (rev (take i (map val (values c)))) errors)\<rparr>)"
proof (induction i arbitrary: errors c)
  case 0
  then show ?case by simp
next
  case (Suc i)
  let ?v = "val (values c ! i)"
  let ?c1 = "c\<lparr>calls := calls c @ [Finalized ?v errors]\<rparr>"
  have lt: "i < length (values c)" using Suc.prems by simp
  have tk: "rev (take (Suc i) (map val (values c))) = ?v # rev (take i (map val (values c)))"
    using lt by (simp add: take_Suc_conv_app_nth)
  have f1: "finalized ?c1" and l1: "i \<le> length (values ?c1)" and v1: "values ?c1 = values c"
    using Suc.prems by simp_all
  have le: "i \<le> length (values c)" using lt by simp
  show ?case
  proof (cases "as_Finalizeable env ?v")
    case None
    then show ?thesis using lt tk Suc.IH[OF Suc.prems(1) le] by simp
  next
    case (Some f)
    show ?thesis
    proof (cases "finalizer_outcome (f errors)")
      case (Inl p)
      then show ?thesis using lt tk Some f1 by (simp add: exec_finalized)
    next
      case (Inr r)
      show ?thesis
      proof (cases r)
        case None
        then show ?thesis using lt tk Some f1 Inr Suc.IH[OF f1 l1, of errors]
          by (simp add: exec_finalized)
      next
        case (Some e)
        then show ?thesis using lt tk \<open>as_Finalizeable env ?v = Some f\<close> f1 Inr
            Suc.IH[OF f1 l1, of "errors @ [e]"]
          by (simp add: exec_finalized)
      qed
    qed
  qed
qed

lemma Finalize_unfinalized:
  assumes "\<not> finalized c"
  shows "finalize_loop n env (length (values c)) (case err of None \<Rightarrow> [] | Some e \<Rightarrow> [e])
           (c\<lparr>finalized := True\<rparr>) =
         Some (snd (teardown_spec env (rev (map val (values c))) (case err of None \<Rightarrow> [] | Some e \<Rightarrow> [e])),
               c\<lparr>finalized := True,
                 calls := calls c @ fst (teardown_spec env (rev (map val (values c))) (case err of None \<Rightarrow> [] | Some e \<Rightarrow> [e]))\<rparr>)"
  using finalize_loop_spec[of "c\<lparr>finalized := True\<rparr>" "length (values c)" n env]
  by simp

lemma Finalize_finalized: "finalized c \<Longrightarrow> Finalize n env err c = Some (Inr err, c)"
  by (simp add: Finalize_def)

lemma Finalize_eq:
  assumes "\<not> finalized c"
  shows "Finalize n env err c =
    (case snd (teardown_spec env (rev (map val (values c))) (case err of None \<Rightarrow> [] | Some e \<Rightarrow> [e])) of
       Inl p \<Rightarrow>
         Some (Inl p, c\<lparr>finalized := True,
            calls := calls c @ fst (teardown_spec env (rev (map val (values c))) (case err of None \<Rightarrow> [] | Some e \<Rightarrow> [e]))\<rparr>)
     | Inr errors \<Rightarrow>
         Some (if errors = [] then Inr None
               else case (if length errors = 1 then error_eq (Some (errors ! 0)) err else Inr False) of
                      Inl p \<Rightarrow> Inl p
                    | Inr b \<Rightarrow>
                        Inr (if b then err
                             else Some (ProtocolError (NewError env)
                               (CloneWithData (ErrInternal env) (ErrorData (Encode env ''finalization failed'') [])))),
               c\<lparr>values := [], finalized := True,
                 calls := calls c @ fst (teardown_spec env (rev (map val (values c))) (case err of None \<Rightarrow> [] | Some e \<Rightarrow> [e]))\<rparr>))"
  using assms
  by (simp add: Finalize_def Finalize_unfinalized Let_def split: sum.splits bool.splits)

lemma Finalize_outcome:
  assumes "\<not> finalized c"
  shows "\<exists>r c'. Finalize n env err c = Some (r, c') \<and> finalized c' \<and>
           calls c' = calls c @ fst (teardown_spec env (rev (map val (values c))) (case err of None \<Rightarrow> [] | Some e \<Rightarrow> [e])) \<and>
           (case snd (teardown_spec env (rev (map val (values c))) (case err of None \<Rightarrow> [] | Some e \<Rightarrow> [e])) of
              Inl p \<Rightarrow> r = Inl p \<and> values c' = values c
            | Inr errors \<Rightarrow> values c' = [])"
proof (cases "snd (teardown_spec env (rev (map val (values c))) (case err of None \<Rightarrow> [] | Some e \<Rightarrow> [e]))")
  case (Inl p)
  then show ?thesis using assms
    by (simp add: Finalize_def Finalize_unfinalized Let_def)
next
  case (Inr errors)
  then show ?thesis using assms
    by (simp add: Finalize_eq)
qed



lemma fail_fast_outcome: "finalizer_outcome (fail_fast p) = finalizer_outcome p"
  by (cases p) (simp_all add: fail_fast_def finalizer_outcome_def)

lemma teardown_spec_fail_fast:
  "teardown_spec (env\<lparr>Finalizer := \<lambda>v. map_option (\<lambda>f errs. fail_fast (f errs)) (Finalizer env v)\<rparr>) vs errs
     = teardown_spec env vs errs"
proof (induction vs arbitrary: errs)
  case Nil
  then show ?case by simp
next
  case (Cons v vs)
  let ?env' = "env\<lparr>Finalizer := \<lambda>v. map_option (\<lambda>f errs. fail_fast (f errs)) (Finalizer env v)\<rparr>"
  have a: "as_Finalizeable ?env' v = map_option (\<lambda>f errs. fail_fast (f errs)) (as_Finalizeable env v)"
    by (cases v) (simp_all add: as_Finalizeable_def)
  show ?case
  proof (cases "as_Finalizeable env v")
    case None
    then show ?thesis using a Cons.IH by simp
  next
    case (Some f)
    then show ?thesis using a Cons.IH
      by (simp add: fail_fast_outcome split: sum.splits option.splits)
  qed
qed

lemma Finalize_fail_fast:
  "Finalize n (env\<lparr>Finalizer := \<lambda>v. map_option (\<lambda>f errs. fail_fast (f errs)) (Finalizer env v)\<rparr>) e c
     = Finalize n env e c"
proof (cases "finalized c")
  case True
  then show ?thesis by (simp add: Finalize_finalized)
next
  case False
  let ?env' = "env\<lparr>Finalizer := \<lambda>v. map_option (\<lambda>f errs. fail_fast (f errs)) (Finalizer env v)\<rparr>"
  show ?thesis
    using False
    by (simp add: Finalize_eq teardown_spec_fail_fast cong: sum.case_cong if_cong)
qed

lemma Finalize_last_reenters:
  assumes "\<not> finalized c" and "values c = vs @ [it]" and "as_Finalizeable env (val it) = Some f"
    and "f (case e of None \<Rightarrow> [] | Some x \<Rightarrow> [x]) = RequireThen U k"
  shows "Finalize n env e c = Some (Inl (PanicMsg ''context is already finalized''),
           c\<lparr>finalized := True, calls := calls c @ [Finalized (val it) (case e of None \<Rightarrow> [] | Some x \<Rightarrow> [x])]\<rparr>)"
proof -
  have "teardown_spec env (rev (map val (values c))) (case e of None \<Rightarrow> [] | Some x \<Rightarrow> [x])
      = ([Finalized (val it) (case e of None \<Rightarrow> [] | Some x \<Rightarrow> [x])], Inl (PanicMsg ''context is already finalized''))"
    using assms(2,3,4) by (simp add: finalizer_outcome_def)
  then show ?thesis using assms(1) by (simp add: Finalize_eq)
qed

text \<open>
  C4: \<open>Finalize\<close> sets \<open>finalized\<close> before the teardown, and \<open>Require\<close> on a finalized
  context panics without touching the store. After \<open>Finalize\<close>, however it ends, the
  context is finalized, holds no slot it did not hold before, and every \<open>Require\<close>
  panics. During the teardown a \<open>Finalize\<close> method that calls \<open>Require\<close> gets that
  panic: for the most recent slot it ends \<open>Finalize\<close> at once, and in general the
  result of \<open>Finalize\<close> is the one obtained when every such method panics instead of
  calling \<open>Require\<close>.
\<close>

theorem Finalize_closes_context:
  "(finalized c \<longrightarrow> Require n env T c = Some (Inl (PanicMsg ''context is already finalized''), c))
   \<and> (\<forall>r c'. Finalize n env e c = Some (r, c') \<longrightarrow>
         finalized c' \<and> (values c' = [] \<or> values c' = values c)
         \<and> (\<forall>m U. Require m env U c' = Some (Inl (PanicMsg ''context is already finalized''), c')))
   \<and> (\<forall>vs it f U k. \<not> finalized c \<and> values c = vs @ [it] \<and> as_Finalizeable env (val it) = Some f
         \<and> f (case e of None \<Rightarrow> [] | Some x \<Rightarrow> [x]) = RequireThen U k \<longrightarrow>
         Finalize n env e c = Some (Inl (PanicMsg ''context is already finalized''),
           c\<lparr>finalized := True, calls := calls c @ [Finalized (val it) (case e of None \<Rightarrow> [] | Some x \<Rightarrow> [x])]\<rparr>))
   \<and> Finalize n (env\<lparr>Finalizer := \<lambda>v. map_option (\<lambda>f errs. fail_fast (f errs)) (Finalizer env v)\<rparr>) e c
       = Finalize n env e c"
proof (intro conjI allI impI)
  assume "finalized c"
  then show "Require n env T c = Some (Inl (PanicMsg ''context is already finalized''), c)"
    by (rule Require_finalized)
next
  fix r c'
  assume a: "Finalize n env e c = Some (r, c')"
  have "finalized c' \<and> (values c' = [] \<or> values c' = values c)"
  proof (cases "finalized c")
    case True
    with a show ?thesis by (simp add: Finalize_finalized)
  next
    case False
    from Finalize_outcome[OF False, of n env e] a show ?thesis
      by (auto split: sum.splits)
  qed
  then show "finalized c'" and "values c' = [] \<or> values c' = values c" by simp_all
  fix m U
  from \<open>finalized c'\<close> show "Require m env U c' = Some (Inl (PanicMsg ''context is already finalized''), c')"
    by (rule Require_finalized)
next
  fix vs it f U k
  assume "\<not> finalized c \<and> values c = vs @ [it] \<and> as_Finalizeable env (val it) = Some f
         \<and> f (case e of None \<Rightarrow> [] | Some x \<Rightarrow> [x]) = RequireThen U k"
  then show "Finalize n env e c = Some (Inl (PanicMsg ''context is already finalized''),
           c\<lparr>finalized := True, calls := calls c @ [Finalized (val it) (case e of None \<Rightarrow> [] | Some x \<Rightarrow> [x])]\<rparr>)"
    using Finalize_last_reenters by blast
next
  show "Finalize n (env\<lparr>Finalizer := \<lambda>v. map_option (\<lambda>f errs. fail_fast (f errs)) (Finalizer env v)\<rparr>) e c
       = Finalize n env e c"
    by (rule Finalize_fail_fast)
qed

lemma demo_Finalize_db:
  "Finalize 0 demo None ctx_db =
     Some (Inr (Some (ProtocolError 100 (Error (-32000) ''Internal server error''
                        (Some (ErrorData ''finalization failed'' []))))), ctx_db_done)"
  by (simp add: Finalize_eq ctx_db_def ctx_db_done_def finalizer_outcome_def CloneWithData_def)


lemma demo_StoreValue_Closer: "StoreValue tCloser (Obj 15) ctx0 = (Inr (), ctx_reenter)"
  by (simp add: StoreValue_def ctx_reenter_def ctx0_eq tCloser_def TypeContext_def)

theorem Finalize_closes_context_witness:
  "Require (Suc 0) demo tDB ctx_db_done = Some (Inl (PanicMsg ''context is already finalized''), ctx_db_done)
   \<and> Finalize 0 demo None ctx_db =
     Some (Inr (Some (ProtocolError 100 (Error (-32000) ''Internal server error''
                        (Some (ErrorData ''finalization failed'' []))))), ctx_db_done)
   \<and> Require (Suc 0) demo tSession ctx_db_done = Some (Inl (PanicMsg ''context is already finalized''), ctx_db_done)
   \<and> StoreValue tCloser (Obj 15) ctx0 = (Inr (), ctx_reenter)
   \<and> Finalize 0 demo None ctx_reenter =
       Some (Inl (PanicMsg ''context is already finalized''),
             ctx_reenter\<lparr>finalized := True, calls := calls ctx_reenter @ [Finalized (Obj 15) []]\<rparr>)"
proof -
  have f: "finalized ctx_db_done" by (simp add: ctx_db_done_def)
  from Finalize_closes_context[of ctx_db_done "Suc 0" demo tDB None] f
  have a: "Require (Suc 0) demo tDB ctx_db_done = Some (Inl (PanicMsg ''context is already finalized''), ctx_db_done)"
    by blast
  from Finalize_closes_context[of ctx_db 0 demo tDB None] demo_Finalize_db
  have b: "Require (Suc 0) demo tSession ctx_db_done = Some (Inl (PanicMsg ''context is already finalized''), ctx_db_done)"
    by blast
  have h: "\<not> finalized ctx_reenter \<and> values ctx_reenter = [\<lparr>rt = TypeContext, val = Obj 0, valid = True\<rparr>] @ [\<lparr>rt = tCloser, val = Obj 15, valid = True\<rparr>]
      \<and> as_Finalizeable demo (val \<lparr>rt = tCloser, val = Obj 15, valid = True\<rparr>) = Some (\<lambda>errs. RequireThen tDB (\<lambda>db. Return None))
      \<and> (\<lambda>errs. RequireThen tDB (\<lambda>db. Return None)) (case None of None \<Rightarrow> [] | Some x \<Rightarrow> [x]) = RequireThen tDB (\<lambda>db. Return None)"
    by (simp add: ctx_reenter_def)
  from Finalize_closes_context[of ctx_reenter 0 demo tDB None] h
  have c: "Finalize 0 demo None ctx_reenter =
       Some (Inl (PanicMsg ''context is already finalized''),
             ctx_reenter\<lparr>finalized := True, calls := calls ctx_reenter @ [Finalized (val \<lparr>rt = tCloser, val = Obj 15, valid = True\<rparr>) (case None of None \<Rightarrow> [] | Some x \<Rightarrow> [x])]\<rparr>)"
    by blast
  from a b c show ?thesis by (simp add: demo_Finalize_db demo_StoreValue_Closer)
qed

lemma teardown_spec_returns:
  assumes "\<forall>v \<in> set vs. \<forall>f es. as_Finalizeable env v = Some f \<longrightarrow> (\<exists>r. f es = Return r)"
  shows "\<exists>errors. snd (teardown_spec env vs errs) = Inr errors
           \<and> map finalized_value (fst (teardown_spec env vs errs))
               = map Some (filter (\<lambda>v. as_Finalizeable env v \<noteq> None) vs)"
  using assms
proof (induction vs arbitrary: errs)
  case Nil
  then show ?case by simp
next
  case (Cons v vs)
  have IH: "\<And>errs. \<exists>errors. snd (teardown_spec env vs errs) = Inr errors
           \<and> map finalized_value (fst (teardown_spec env vs errs))
               = map Some (filter (\<lambda>v. as_Finalizeable env v \<noteq> None) vs)"
    using Cons by simp
  show ?case
  proof (cases "as_Finalizeable env v")
    case None
    then show ?thesis using IH[of errs] by simp
  next
    case (Some f)
    from Cons.prems Some have "\<exists>r. f errs = Return r" by simp
    then obtain r where r: "f errs = Return r" by blast
    show ?thesis
    proof (cases r)
      case None
      then show ?thesis using Some r IH[of errs] by (simp add: finalizer_outcome_def)
    next
      case (Some e)
      then show ?thesis using \<open>as_Finalizeable env v = Some f\<close> r IH[of "errs @ [e]"]
        by (simp add: finalizer_outcome_def)
    qed
  qed
qed

text \<open>
  C5: on a context that is not finalized, and when every \<open>Finalize\<close> method of a stored
  value returns, \<open>Finalize\<close> makes exactly the calls of the teardown of the
  specification on the stored values from the last slot to the first, starting from
  the caller's error: one call for each slot whose value has the finalize capability,
  the most recently acquired first, each with the errors accumulated so far. All slots
  are then released, and \<open>Finalize\<close> returns, unless exactly one failure was collected and
  comparing it with the error passed in panics.
\<close>

theorem Finalize_walks_backwards:
  assumes "\<not> finalized c"
    and "\<forall>it \<in> set (values c). \<forall>f es. as_Finalizeable env (val it) = Some f \<longrightarrow> (\<exists>r. f es = Return r)"
  shows "\<exists>r errors.
      snd (teardown_spec env (rev (map val (values c))) (case err of None \<Rightarrow> [] | Some e \<Rightarrow> [e])) = Inr errors
    \<and> Finalize n env err c =
        Some (r, c\<lparr>values := [], finalized := True,
           calls := calls c @ fst (teardown_spec env (rev (map val (values c))) (case err of None \<Rightarrow> [] | Some e \<Rightarrow> [e]))\<rparr>)
    \<and> (case (if length errors = 1 then error_eq (Some (errors ! 0)) err else Inr False) of
          Inl p \<Rightarrow> r = Inl p
        | Inr b \<Rightarrow> (\<exists>x. r = Inr x))
    \<and> map finalized_value (fst (teardown_spec env (rev (map val (values c))) (case err of None \<Rightarrow> [] | Some e \<Rightarrow> [e])))
        = map Some (filter (\<lambda>v. as_Finalizeable env v \<noteq> None) (rev (map val (values c))))"
proof -
  let ?vs = "rev (map val (values c))"
  let ?e0 = "case err of None \<Rightarrow> [] | Some e \<Rightarrow> [e]"
  have "\<forall>v \<in> set ?vs. \<forall>f es. as_Finalizeable env v = Some f \<longrightarrow> (\<exists>r. f es = Return r)"
    using assms(2) by simp
  from teardown_spec_returns[OF this, of ?e0] obtain errors where
    e: "snd (teardown_spec env ?vs ?e0) = Inr errors"
    and m: "map finalized_value (fst (teardown_spec env ?vs ?e0))
               = map Some (filter (\<lambda>v. as_Finalizeable env v \<noteq> None) ?vs)"
    by blast
  from Finalize_eq[OF assms(1), of n env err] e
  have "\<exists>r. Finalize n env err c =
        Some (r, c\<lparr>values := [], finalized := True, calls := calls c @ fst (teardown_spec env ?vs ?e0)\<rparr>)
      \<and> (case (if length errors = 1 then error_eq (Some (errors ! 0)) err else Inr False) of
          Inl p \<Rightarrow> r = Inl p
        | Inr b \<Rightarrow> (\<exists>x. r = Inr x))"
    by (cases "errors = []") (auto split: sum.splits)
  with e m show ?thesis by blast
qed

lemma demo_Require_Session_fresh:
  "Require (Suc (Suc 0)) demo tSession ctx0 = Some (Inr (Obj 12), ctx_session)"
  by (simp add: Require_Suc_fresh ctx_session_def ctx0_eq)

lemma demo_teardown_session:
  "teardown_spec demo (rev (map val (values ctx_session))) [] =
     ([Finalized (Obj 11) [], Finalized (Obj 12) [OtherError 11 ''db close failed'']],
      Inr [OtherError 11 ''db close failed''])"
  by (simp add: ctx_session_def finalizer_outcome_def)

theorem Finalize_walks_backwards_witness:
  "Require (Suc (Suc 0)) demo tSession ctx0 = Some (Inr (Obj 12), ctx_session)
   \<and> Finalize 0 demo None ctx_session =
     Some (Inr (Some (ProtocolError 100 (Error (-32000) ''Internal server error''
                        (Some (ErrorData ''finalization failed'' []))))),
           ctx_session\<lparr>values := [], finalized := True,
             calls := calls ctx_session @
               [Finalized (Obj 11) [], Finalized (Obj 12) [OtherError 11 ''db close failed'']]\<rparr>)
   \<and> map val (values ctx_session) = [Obj 0, Obj 12, Obj 11]"
proof -
  have h1: "\<not> finalized ctx_session" by (simp add: ctx_session_def)
  have h2: "\<forall>it \<in> set (values ctx_session). \<forall>f es. as_Finalizeable demo (val it) = Some f \<longrightarrow> (\<exists>r. f es = Return r)"
    by (auto simp: ctx_session_def)
  from Finalize_walks_backwards[OF h1 h2, of None 0] obtain r where
    "Finalize 0 demo None ctx_session =
        Some (r, ctx_session\<lparr>values := [], finalized := True,
           calls := calls ctx_session @ fst (teardown_spec demo (rev (map val (values ctx_session))) [])\<rparr>)"
    by auto
  then have a: "Finalize 0 demo None ctx_session =
        Some (r, ctx_session\<lparr>values := [], finalized := True,
           calls := calls ctx_session @ [Finalized (Obj 11) [], Finalized (Obj 12) [OtherError 11 ''db close failed'']]\<rparr>)"
    by (simp add: demo_teardown_session)
  have "Finalize 0 demo None ctx_session =
     Some (Inr (Some (ProtocolError 100 (Error (-32000) ''Internal server error''
                        (Some (ErrorData ''finalization failed'' []))))),
           ctx_session\<lparr>values := [], finalized := True,
             calls := calls ctx_session @
               [Finalized (Obj 11) [], Finalized (Obj 12) [OtherError 11 ''db close failed'']]\<rparr>)"
    using h1 by (simp add: Finalize_eq demo_teardown_session CloneWithData_def)
  with a have "r = Inr (Some (ProtocolError 100 (Error (-32000) ''Internal server error''
                        (Some (ErrorData ''finalization failed'' [])))))" by simp
  with a show ?thesis by (simp add: demo_Require_Session_fresh) (simp add: ctx_session_def)
qed

lemma error_eq_pointer: "pointer_error e \<Longrightarrow> error_eq (Some e) (Some e) = Inr True"
  by (cases e) simp_all

lemma teardown_spec_extends:
  "snd (teardown_spec env vs errs) = Inr errors \<Longrightarrow> \<exists>more. errors = errs @ more"
proof (induction vs arbitrary: errs)
  case Nil
  then show ?case by simp
next
  case (Cons v vs)
  show ?case
  proof (cases "as_Finalizeable env v")
    case None
    with Cons show ?thesis by simp
  next
    case (Some f)
    show ?thesis
    proof (cases "finalizer_outcome (f errs)")
      case (Inl p)
      with Cons.prems Some show ?thesis by simp
    next
      case (Inr r)
      show ?thesis
      proof (cases r)
        case None
        with Cons Some Inr show ?thesis by simp
      next
        case (Some e)
        with Cons.prems \<open>as_Finalizeable env v = Some f\<close> Inr
        have "snd (teardown_spec env vs (errs @ [e])) = Inr errors" by simp
        from Cons.IH[OF this] show ?thesis by auto
      qed
    qed
  qed
qed

text \<open>
  C7: on a context that is not finalized, when the teardown collects no failure
  \<open>Finalize\<close> returns nil. When it collects exactly one and \<open>errors[0] == err\<close> holds,
  \<open>Finalize\<close> returns the error passed in, as it is; for two pointers that is pointer
  identity, whatever they point to. So a single failure next to an error passed in
  whose dynamic type is a pointer is returned as it is, and so is a \<open>*Error\<close> at the
  address of the one passed in.
\<close>

theorem Finalize_returns_nil_or_the_error:
  assumes "\<not> finalized c"
    and "snd (teardown_spec env (rev (map val (values c))) (case err of None \<Rightarrow> [] | Some e \<Rightarrow> [e])) = Inr errors"
  shows "(errors = [] \<longrightarrow>
            Finalize n env err c = Some (Inr None, c\<lparr>values := [], finalized := True,
              calls := calls c @ fst (teardown_spec env (rev (map val (values c))) (case err of None \<Rightarrow> [] | Some e \<Rightarrow> [e]))\<rparr>))
       \<and> (\<forall>e. errors = [e] \<and> error_eq (Some e) err = Inr True \<longrightarrow>
            Finalize n env err c = Some (Inr err, c\<lparr>values := [], finalized := True,
              calls := calls c @ fst (teardown_spec env (rev (map val (values c))) (case err of None \<Rightarrow> [] | Some e \<Rightarrow> [e]))\<rparr>))
       \<and> (\<forall>a x y. errors = [ProtocolError a x] \<and> err = Some (ProtocolError a y) \<longrightarrow>
            Finalize n env err c = Some (Inr err, c\<lparr>values := [], finalized := True,
              calls := calls c @ fst (teardown_spec env (rev (map val (values c))) (case err of None \<Rightarrow> [] | Some e \<Rightarrow> [e]))\<rparr>))
       \<and> (\<forall>e0. err = Some e0 \<and> pointer_error e0 \<and> length errors = 1 \<longrightarrow>
            Finalize n env err c = Some (Inr (Some e0), c\<lparr>values := [], finalized := True,
              calls := calls c @ fst (teardown_spec env (rev (map val (values c))) (case err of None \<Rightarrow> [] | Some e \<Rightarrow> [e]))\<rparr>))"
proof (intro conjI allI impI)
  assume "errors = []"
  then show "Finalize n env err c = Some (Inr None, c\<lparr>values := [], finalized := True,
              calls := calls c @ fst (teardown_spec env (rev (map val (values c))) (case err of None \<Rightarrow> [] | Some e \<Rightarrow> [e]))\<rparr>)"
    using assms by (simp add: Finalize_eq)
next
  fix e
  assume "errors = [e] \<and> error_eq (Some e) err = Inr True"
  then show "Finalize n env err c = Some (Inr err, c\<lparr>values := [], finalized := True,
              calls := calls c @ fst (teardown_spec env (rev (map val (values c))) (case err of None \<Rightarrow> [] | Some e \<Rightarrow> [e]))\<rparr>)"
    using assms by (simp add: Finalize_eq)
next
  fix a x y
  assume "errors = [ProtocolError a x] \<and> err = Some (ProtocolError a y)"
  then show "Finalize n env err c = Some (Inr err, c\<lparr>values := [], finalized := True,
              calls := calls c @ fst (teardown_spec env (rev (map val (values c))) (case err of None \<Rightarrow> [] | Some e \<Rightarrow> [e]))\<rparr>)"
    using assms by (simp add: Finalize_eq)
next
  fix e0
  assume a: "err = Some e0 \<and> pointer_error e0 \<and> length errors = 1"
  from teardown_spec_extends[OF assms(2)] a obtain more where "errors = [e0] @ more" by auto
  with a have "errors = [e0]" by simp
  moreover have "error_eq (Some e0) (Some e0) = Inr True" using a by (simp add: error_eq_pointer)
  ultimately show "Finalize n env err c = Some (Inr (Some e0), c\<lparr>values := [], finalized := True,
              calls := calls c @ fst (teardown_spec env (rev (map val (values c))) (case err of None \<Rightarrow> [] | Some e \<Rightarrow> [e]))\<rparr>)"
    using assms a by (simp add: Finalize_eq)
qed

text \<open>
  Where the comparison is not pointer identity: a single failure that is the error
  passed in makes \<open>Finalize\<close> panic when its dynamic type is not comparable, and is
  remodeled when it is a value that is not equal to itself.
\<close>

lemma Finalize_uncomparable_error_panics:
  assumes "\<not> finalized c"
    and "snd (teardown_spec env (rev (map val (values c))) [UncomparableError t m]) = Inr [UncomparableError t m]"
  shows "Finalize n env (Some (UncomparableError t m)) c =
           Some (Inl (PanicMsg (''runtime error: comparing uncomparable type '' @ t)),
                 c\<lparr>values := [], finalized := True,
                   calls := calls c @ fst (teardown_spec env (rev (map val (values c))) [UncomparableError t m])\<rparr>)"
  using assms by (simp add: Finalize_eq)

lemma Finalize_unequal_to_itself_is_remodeled:
  assumes "\<not> finalized c"
    and "snd (teardown_spec env (rev (map val (values c))) [ValueError t None m]) = Inr [ValueError t None m]"
  shows "Finalize n env (Some (ValueError t None m)) c =
           Some (Inr (Some (ProtocolError (NewError env)
                   (CloneWithData (ErrInternal env) (ErrorData (Encode env ''finalization failed'') [])))),
                 c\<lparr>values := [], finalized := True,
                   calls := calls c @ fst (teardown_spec env (rev (map val (values c))) [ValueError t None m])\<rparr>)"
  using assms by (simp add: Finalize_eq)

theorem Finalize_returns_nil_or_the_error_witness:
  "Finalize 0 demo None ctx0 = Some (Inr None, ctx0\<lparr>values := [], finalized := True\<rparr>)
   \<and> Finalize 0 demo (Some (OtherError 3 ''call failed'')) ctx0 =
       Some (Inr (Some (OtherError 3 ''call failed'')), ctx0\<lparr>values := [], finalized := True\<rparr>)
   \<and> Finalize 0 demo (Some (ProtocolError 7 (Error (-32602) ''Invalid params'' None))) ctx0 =
       Some (Inr (Some (ProtocolError 7 (Error (-32602) ''Invalid params'' None))),
             ctx0\<lparr>values := [], finalized := True\<rparr>)"
proof -
  have nf: "\<not> finalized ctx0" by simp
  have t1: "snd (teardown_spec demo (rev (map val (values ctx0))) (case None of None \<Rightarrow> [] | Some e \<Rightarrow> [e])) = Inr []"
    by simp
  have t2: "snd (teardown_spec demo (rev (map val (values ctx0)))
               (case Some (OtherError 3 ''call failed'') of None \<Rightarrow> [] | Some e \<Rightarrow> [e])) = Inr [OtherError 3 ''call failed'']"
    by simp
  have t3: "snd (teardown_spec demo (rev (map val (values ctx0)))
               (case Some (ProtocolError 7 (Error (-32602) ''Invalid params'' None)) of None \<Rightarrow> [] | Some e \<Rightarrow> [e]))
             = Inr [ProtocolError 7 (Error (-32602) ''Invalid params'' None)]"
    by simp
  from Finalize_returns_nil_or_the_error[OF nf t1, of 0]
  have a: "Finalize 0 demo None ctx0 = Some (Inr None, ctx0\<lparr>values := [], finalized := True\<rparr>)"
    by simp
  have p: "pointer_error (OtherError 3 ''call failed'')" by simp
  from Finalize_returns_nil_or_the_error[OF nf t2, of 0] p
  have b: "Finalize 0 demo (Some (OtherError 3 ''call failed'')) ctx0 =
       Some (Inr (Some (OtherError 3 ''call failed'')), ctx0\<lparr>values := [], finalized := True\<rparr>)"
    by simp
  have q: "error_eq (Some (ProtocolError 7 (Error (-32602) ''Invalid params'' None)))
             (Some (ProtocolError 7 (Error (-32602) ''Invalid params'' None))) = Inr True" by simp
  from Finalize_returns_nil_or_the_error[OF nf t3, of 0] q
  have c: "Finalize 0 demo (Some (ProtocolError 7 (Error (-32602) ''Invalid params'' None))) ctx0 =
       Some (Inr (Some (ProtocolError 7 (Error (-32602) ''Invalid params'' None))),
             ctx0\<lparr>values := [], finalized := True\<rparr>)"
    by simp
  from a b c show ?thesis by simp
qed

lemma demo_Finalize_uncomparable:
  "Finalize 0 demo (Some (UncomparableError ''app.multiError'' ''two failures'')) ctx0 =
     Some (Inl (PanicMsg ''runtime error: comparing uncomparable type app.multiError''),
           ctx0\<lparr>values := [], finalized := True\<rparr>)"
  by (simp add: Finalize_eq)

lemma demo_Finalize_unequal_to_itself:
  "Finalize 0 demo (Some (ValueError ''app.ratioError'' None ''NaN'')) ctx0 =
     Some (Inr (Some (ProtocolError 100 (Error (-32000) ''Internal server error''
                        (Some (ErrorData ''finalization failed'' []))))),
           ctx0\<lparr>values := [], finalized := True\<rparr>)"
  by (simp add: Finalize_eq CloneWithData_def)

text \<open>
  C1, on the code: \<open>Finalize\<close> with a non-nil error on a context whose stored \<open>DB\<close> fails
  to finalize. The loop collects two failures and the loop "remodel sub errors" turns
  them into two protocol errors, but the error returned carries no sub-error.
\<close>

theorem Finalize_two_failures_no_details:
  "finalize_loop 0 demo (length (values ctx_db)) [OtherError 3 ''call failed''] (ctx_db\<lparr>finalized := True\<rparr>)
     = Some (Inr [OtherError 3 ''call failed'', OtherError 11 ''db close failed''],
             ctx_db\<lparr>finalized := True, calls := [Provided tDB, Finalized (Obj 11) [OtherError 3 ''call failed'']]\<rparr>)
   \<and> map (remodel demo) [OtherError 3 ''call failed'', OtherError 11 ''db close failed'']
     = [Error (-32000) ''Internal server error'' (Some (ErrorData ''call failed'' [])),
        Error (-32000) ''Internal server error'' (Some (ErrorData ''db close failed'' []))]
   \<and> Finalize 0 demo (Some (OtherError 3 ''call failed'')) ctx_db
     = Some (Inr (Some (ProtocolError 100 (Error (-32000) ''Internal server error''
                          (Some (ErrorData ''finalization failed'' []))))),
             \<lparr>values = [], finalized = True,
              calls = [Provided tDB, Finalized (Obj 11) [OtherError 3 ''call failed'']]\<rparr>)"
proof (intro conjI)
  have f: "finalized (ctx_db\<lparr>finalized := True\<rparr>)" by simp
  have l: "length (values ctx_db) \<le> length (values (ctx_db\<lparr>finalized := True\<rparr>))" by simp
  show "finalize_loop 0 demo (length (values ctx_db)) [OtherError 3 ''call failed''] (ctx_db\<lparr>finalized := True\<rparr>)
     = Some (Inr [OtherError 3 ''call failed'', OtherError 11 ''db close failed''],
             ctx_db\<lparr>finalized := True, calls := [Provided tDB, Finalized (Obj 11) [OtherError 3 ''call failed'']]\<rparr>)"
    by (simp add: finalize_loop_spec[OF f l]) (simp add: ctx_db_def finalizer_outcome_def)
  show "map (remodel demo) [OtherError 3 ''call failed'', OtherError 11 ''db close failed'']
     = [Error (-32000) ''Internal server error'' (Some (ErrorData ''call failed'' [])),
        Error (-32000) ''Internal server error'' (Some (ErrorData ''db close failed'' []))]"
    by (simp add: remodel_def CloneWithData_def)
  show "Finalize 0 demo (Some (OtherError 3 ''call failed'')) ctx_db
     = Some (Inr (Some (ProtocolError 100 (Error (-32000) ''Internal server error''
                          (Some (ErrorData ''finalization failed'' []))))),
             \<lparr>values = [], finalized = True,
              calls = [Provided tDB, Finalized (Obj 11) [OtherError 3 ''call failed'']]\<rparr>)"
    by (simp add: Finalize_eq ctx_db_def finalizer_outcome_def CloneWithData_def)
qed

subsection \<open>Invalidate and the cache\<close>

lemma find_append_slots:
  "find P (xs @ ys) = (case find P xs of None \<Rightarrow> find P ys | Some x \<Rightarrow> Some x)"
  by (induction xs) simp_all

lemma grows_find:
  assumes "grows c c'" and "find (\<lambda>it. rt it = T) (values c) = Some it"
  shows "find (\<lambda>it. rt it = T) (values c') = Some it"
proof -
  from assms(1) obtain new where "values c' = values c @ new"
    unfolding grows_def by blast
  with assms(2) show ?thesis by (simp add: find_append_slots)
qed

lemma grows_count:
  assumes "grows c c'" and "T \<in> slot_types c"
  shows "count_list (calls c') (Provided T) = count_list (calls c) (Provided T)"
proof -
  from assms(1) obtain evs where e: "calls c' = calls c @ evs"
    and n: "\<forall>X. Provided X \<in> set evs \<longrightarrow> X \<notin> slot_types c"
    unfolding grows_def by blast
  from n assms(2) have "Provided T \<notin> set evs" by blast
  then have "count_list evs (Provided T) = 0" by (rule count_notin)
  with e show ?thesis by simp
qed

lemma Require_fresh_count:
  assumes "\<not> finalized c" and "requirable T" and "find (\<lambda>it. rt it = T) (values c) = None"
    and "Require n env T c = Some (r, c')"
  shows "count_list (calls c') (Provided T) = Suc (count_list (calls c) (Provided T))"
proof -
  from Require_fresh_shape[OF assms] obtain evs where e: "calls c' = calls c @ Provided T # evs"
    and n: "\<forall>X. Provided X \<in> set evs \<longrightarrow> X \<notin> insert T (slot_types c)"
    by blast
  from n have "Provided T \<notin> set evs" by blast
  then have "count_list evs (Provided T) = 0" by (rule count_notin)
  with e show ?thesis by simp
qed

lemma Invalidate_find:
  "T \<in> set ts \<Longrightarrow> find (\<lambda>it. rt it = T) (values (Invalidate ts c)) = None"
  by (auto simp: Invalidate_def find_None_iff)

text \<open>
  C9: \<open>Invalidate\<close> keeps exactly the slots whose type is not among its arguments, in
  their order, whatever their \<open>valid\<close> flag, and changes nothing else. After it no
  slot for an invalidated type \<open>T\<close> is left, so a \<open>Require(T)\<close> that gets as far as the
  lookup calls the Provider: if it returns or unwinds, the Provider has been called for
  \<open>T\<close> once more, and the value returned is the one the Provider's run returned.
\<close>

theorem Invalidate_then_Require_provides_again:
  "values (Invalidate ts c) = filter (\<lambda>it. rt it \<notin> set ts) (values c)
   \<and> finalized (Invalidate ts c) = finalized c
   \<and> calls (Invalidate ts c) = calls c
   \<and> (T \<in> set ts \<longrightarrow> find (\<lambda>it. rt it = T) (values (Invalidate ts c)) = None)
   \<and> (T \<in> set ts \<and> \<not> finalized c \<and> requirable T \<longrightarrow>
        (\<forall>n r c'. Require n env T (Invalidate ts c) = Some (r, c') \<longrightarrow>
           count_list (calls c') (Provided T) = Suc (count_list (calls c) (Provided T)))
      \<and> (\<forall>n v c'. Require (Suc n) env T (Invalidate ts c) = Some (Inr v, c') \<longrightarrow>
           (\<exists>c2. exec (Require n env) (provider env T)
                   ((Invalidate ts c)\<lparr>values := values (Invalidate ts c) @ [\<lparr>rt = T, val = AnyNil, valid = False\<rparr>],
                                       calls := calls c @ [Provided T]\<rparr>) = Some (Inr v, c2)))
      \<and> Require 0 env T (Invalidate ts c) = None)"
proof (intro conjI impI allI)
  show "values (Invalidate ts c) = filter (\<lambda>it. rt it \<notin> set ts) (values c)"
    and "finalized (Invalidate ts c) = finalized c"
    and "calls (Invalidate ts c) = calls c"
    by (simp_all add: Invalidate_def)
next
  assume "T \<in> set ts"
  then show "find (\<lambda>it. rt it = T) (values (Invalidate ts c)) = None" by (rule Invalidate_find)
next
  fix n r c'
  assume a: "T \<in> set ts \<and> \<not> finalized c \<and> requirable T"
    and b: "Require n env T (Invalidate ts c) = Some (r, c')"
  have nf: "\<not> finalized (Invalidate ts c)" using a by (simp add: Invalidate_def)
  have "count_list (calls c') (Provided T) = Suc (count_list (calls (Invalidate ts c)) (Provided T))"
    using Require_fresh_count[OF nf _ Invalidate_find b] a by blast
  then show "count_list (calls c') (Provided T) = Suc (count_list (calls c) (Provided T))"
    by (simp add: Invalidate_def)
next
  fix n v c'
  assume a: "T \<in> set ts \<and> \<not> finalized c \<and> requirable T"
    and b: "Require (Suc n) env T (Invalidate ts c) = Some (Inr v, c')"
  have nf: "\<not> finalized (Invalidate ts c)" using a by (simp add: Invalidate_def)
  have rq: "requirable T" and none: "find (\<lambda>it. rt it = T) (values (Invalidate ts c)) = None"
    using a Invalidate_find by blast+
  have cs: "calls (Invalidate ts c) = calls c" by (simp add: Invalidate_def)
  let ?s = "(Invalidate ts c)\<lparr>values := values (Invalidate ts c) @ [\<lparr>rt = T, val = AnyNil, valid = False\<rparr>],
                                       calls := calls c @ [Provided T]\<rparr>"
  show "\<exists>c2. exec (Require n env) (provider env T) ?s = Some (Inr v, c2)"
  proof (cases "exec (Require n env) (provider env T) ?s")
    case None
    with b show ?thesis by (simp add: Require_Suc_fresh[OF nf rq none] cs)
  next
    case (Some a)
    obtain r2 c2 where a: "a = (r2, c2)" by (cases a)
    show ?thesis
    proof (cases r2)
      case (Inl p)
      with b Some a show ?thesis by (simp add: Require_Suc_fresh[OF nf rq none] cs)
    next
      case (Inr x)
      with b Some a have "x = v" by (simp add: Require_Suc_fresh[OF nf rq none] cs)
      with Some a Inr show ?thesis by simp
    qed
  qed
next
  assume a: "T \<in> set ts \<and> \<not> finalized c \<and> requirable T"
  have nf: "\<not> finalized (Invalidate ts c)" using a by (simp add: Invalidate_def)
  show "Require 0 env T (Invalidate ts c) = None"
    using Require_0_fresh[OF nf _ Invalidate_find] a by blast
qed

lemma demo_Invalidate_db:
  "Invalidate [tDB] ctx_db = \<lparr>values = [\<lparr>rt = TypeContext, val = Obj 0, valid = True\<rparr>], finalized = False, calls = [Provided tDB]\<rparr>"
  by (simp add: Invalidate_def ctx_db_def)

lemma demo_Require_db_again:
  "Require (Suc 0) demo tDB (Invalidate [tDB] ctx_db) = Some (Inr (Obj 11), ctx_db_again)"
  by (simp add: demo_Invalidate_db Require_Suc_fresh ctx_db_again_def)

theorem Invalidate_then_Require_provides_again_witness:
  "values (Invalidate [tDB] ctx_db) = [\<lparr>rt = TypeContext, val = Obj 0, valid = True\<rparr>]
   \<and> Require (Suc 0) demo tDB (Invalidate [tDB] ctx_db) = Some (Inr (Obj 11), ctx_db_again)
   \<and> count_list (calls ctx_db_again) (Provided tDB) = Suc (count_list (calls ctx_db) (Provided tDB))
   \<and> Require 0 demo tDB (Invalidate [tDB] ctx_db) = None"
proof -
  note t = Invalidate_then_Require_provides_again[of "[tDB]" ctx_db tDB demo]
  have h: "tDB \<in> set [tDB] \<and> \<not> finalized ctx_db \<and> requirable tDB"
    by (simp add: ctx_db_def)
  from t have a: "values (Invalidate [tDB] ctx_db) = filter (\<lambda>it. rt it \<notin> set [tDB]) (values ctx_db)"
    by blast
  from t h demo_Require_db_again
  have b: "count_list (calls ctx_db_again) (Provided tDB) = Suc (count_list (calls ctx_db) (Provided tDB))"
    by blast
  from t h have c: "Require 0 demo tDB (Invalidate [tDB] ctx_db) = None" by blast
  from a have a': "values (Invalidate [tDB] ctx_db) = [\<lparr>rt = TypeContext, val = Obj 0, valid = True\<rparr>]"
    by (simp add: ctx_db_def)
  from a' b c demo_Require_db_again show ?thesis by blast
qed

subsection \<open>Resolving once\<close>

lemma Require_requirable:
  assumes "find (\<lambda>it. rt it = T) (values c) = None" and "Require n env T c = Some (Inr v, c')"
  shows "\<not> finalized c \<and> requirable T"
proof -
  have 1: "\<not> finalized c" using assms(2) by (cases "finalized c") (simp_all add: Require_finalized)
  have 2: "requirable T" using assms(2) 1 by (cases "requirable T") (simp_all add: Require_bad_kind)
  from 1 2 show ?thesis by simp
qed

lemma Require_cached:
  "\<not> finalized s \<Longrightarrow> requirable T \<Longrightarrow>
   find (\<lambda>it. rt it = T) (values s) = Some \<lparr>rt = T, val = v, valid = True\<rparr> \<Longrightarrow>
   Require m env T s = Some (Inr v, s)"
  by (simp add: Require_found)

lemma Require_keeps_slot:
  assumes "find (\<lambda>it. rt it = T) (values s) = Some it" and "Require m env U s = Some (r, s')"
  shows "find (\<lambda>it. rt it = T) (values s') = Some it \<and> finalized s' = finalized s
       \<and> count_list (calls s') (Provided T) = count_list (calls s) (Provided T)"
proof -
  have g: "grows s s'" using assms(2) by (rule Require_grows)
  have "finalized s' = finalized s" using g unfolding grows_def by blast
  then show ?thesis
    using grows_find[OF g assms(1)] grows_count[OF g find_Some_slot_types[OF assms(1)]] by simp
qed

lemma StoreValue_keeps_slot:
  assumes "find (\<lambda>it. rt it = T) (values s) = Some it"
  shows "find (\<lambda>it. rt it = T) (values (snd (StoreValue U x s))) = Some it"
  using assms
  by (cases "find (\<lambda>it. rt it = U) (values s)") (simp_all add: StoreValue_def find_append_slots)

lemma Invalidate_keeps_slot:
  "T \<notin> set ts \<Longrightarrow> find (\<lambda>it. rt it = T) (values s) = Some it \<Longrightarrow>
   find (\<lambda>it. rt it = T) (values (Invalidate ts s)) = Some it"
proof (induction "values s" arbitrary: s)
  case Nil
  then show ?case by simp
next
  case (Cons a as)
  from Cons.hyps(2) have vs: "values s = a # as" by simp
  show ?case
  proof (cases "rt a = T")
    case True
    with Cons.prems vs show ?thesis by (simp add: Invalidate_def)
  next
    case False
    have "find (\<lambda>it. rt it = T) (values (Invalidate ts (s\<lparr>values := as\<rparr>))) = Some it"
      using Cons.hyps(1)[of "s\<lparr>values := as\<rparr>"] Cons.prems vs False by simp
    with False vs show ?thesis by (simp add: Invalidate_def)
  qed
qed

lemma NewContext_slots: "T \<noteq> TypeContext \<Longrightarrow> find (\<lambda>it. rt it = T) (values (NewContext self)) = None"
  by (auto simp: NewContext_def StoreValue_def)

lemma Require_fresh_filter:
  assumes "find (\<lambda>it. rt it = T) (values c) = None" and "Require n env T c = Some (Inr v, c')"
  shows "filter (\<lambda>it. rt it = T) (values c') = [\<lparr>rt = T, val = v, valid = True\<rparr>]"
proof -
  from Require_requirable[OF assms] have nf: "\<not> finalized c" and rq: "requirable T" by simp_all
  from Require_fresh_shape[OF nf rq assms] obtain new where
    v: "values c' = values c @ \<lparr>rt = T, val = v, valid = True\<rparr> # new"
    and n: "\<forall>it \<in> set new. rt it \<notin> insert T (slot_types c)"
    by auto
  have 1: "filter (\<lambda>it. rt it = T) (values c) = []"
    using assms(1) by (auto simp: find_None_iff filter_empty_conv)
  have 2: "filter (\<lambda>it. rt it = T) new = []"
    using n by (auto simp: filter_empty_conv)
  show ?thesis using v 1 2 by simp
qed

text \<open>
  C8: a fresh context has a slot for its own type only. When \<open>T\<close> has no slot and
  \<open>Require(T)\<close> returns \<open>v\<close>, the store then holds exactly one slot for \<open>T\<close>, valid and
  holding \<open>v\<close>, and the Provider has been called for \<open>T\<close> exactly once. From then on, in
  any state that is not finalized and where that slot is the slot of \<open>T\<close>, \<open>Require(T)\<close>
  returns \<open>v\<close> and changes nothing, so the Provider is not called; the slot stays the
  slot of \<open>T\<close> through any \<open>Require\<close> (which never calls the Provider for \<open>T\<close>),
  any \<open>StoreValue\<close> and any \<open>Invalidate\<close> of other types; and the Provider of another
  type \<open>U\<close> that calls \<open>Require(T)\<close> goes on with \<open>v\<close> in an unchanged state.
\<close>

theorem Require_resolves_once:
  assumes "find (\<lambda>it. rt it = T) (values c) = None"
    and "Require n env T c = Some (Inr v, c')"
  shows "(\<forall>self. T \<noteq> TypeContext \<longrightarrow> find (\<lambda>it. rt it = T) (values (NewContext self)) = None)
    \<and> filter (\<lambda>it. rt it = T) (values c') = [\<lparr>rt = T, val = v, valid = True\<rparr>]
    \<and> find (\<lambda>it. rt it = T) (values c') = Some \<lparr>rt = T, val = v, valid = True\<rparr>
    \<and> \<not> finalized c'
    \<and> count_list (calls c') (Provided T) = Suc (count_list (calls c) (Provided T))
    \<and> (\<forall>s m. \<not> finalized s \<and> find (\<lambda>it. rt it = T) (values s) = Some \<lparr>rt = T, val = v, valid = True\<rparr>
          \<longrightarrow> Require m env T s = Some (Inr v, s))
    \<and> (\<forall>s m U r s' it. find (\<lambda>it. rt it = T) (values s) = Some it \<and> Require m env U s = Some (r, s')
          \<longrightarrow> find (\<lambda>it. rt it = T) (values s') = Some it \<and> finalized s' = finalized s
              \<and> count_list (calls s') (Provided T) = count_list (calls s) (Provided T))
    \<and> (\<forall>s U x it. find (\<lambda>it. rt it = T) (values s) = Some it
          \<longrightarrow> find (\<lambda>it. rt it = T) (values (snd (StoreValue U x s))) = Some it)
    \<and> (\<forall>s ts it. T \<notin> set ts \<and> find (\<lambda>it. rt it = T) (values s) = Some it
          \<longrightarrow> find (\<lambda>it. rt it = T) (values (Invalidate ts s)) = Some it)
    \<and> (\<forall>m U k. U \<noteq> T \<longrightarrow>
          exec (Require m env) (RequireThen T k)
            (c'\<lparr>values := values c' @ [\<lparr>rt = U, val = AnyNil, valid = False\<rparr>], calls := calls c' @ [Provided U]\<rparr>)
          = exec (Require m env) (k v)
            (c'\<lparr>values := values c' @ [\<lparr>rt = U, val = AnyNil, valid = False\<rparr>], calls := calls c' @ [Provided U]\<rparr>))"
proof -
  from Require_requirable[OF assms] have nf: "\<not> finalized c" and rq: "requirable T" by simp_all
  from Require_fresh_shape[OF nf rq assms] obtain new where
    f': "finalized c' = finalized c"
    and v: "values c' = values c @ \<lparr>rt = T, val = v, valid = True\<rparr> # new"
    by auto
  have fnd: "find (\<lambda>it. rt it = T) (values c') = Some \<lparr>rt = T, val = v, valid = True\<rparr>"
    using v assms(1) by (simp add: find_append_slots)
  have nf': "\<not> finalized c'" using f' nf by simp
  have 1: "\<forall>self. T \<noteq> TypeContext \<longrightarrow> find (\<lambda>it. rt it = T) (values (NewContext self)) = None"
    using NewContext_slots by blast
  have 2: "filter (\<lambda>it. rt it = T) (values c') = [\<lparr>rt = T, val = v, valid = True\<rparr>]"
    using assms by (rule Require_fresh_filter)
  have 3: "count_list (calls c') (Provided T) = Suc (count_list (calls c) (Provided T))"
    using nf rq assms by (rule Require_fresh_count)
  have 4: "\<forall>s m. \<not> finalized s \<and> find (\<lambda>it. rt it = T) (values s) = Some \<lparr>rt = T, val = v, valid = True\<rparr>
          \<longrightarrow> Require m env T s = Some (Inr v, s)"
    using Require_cached[OF _ rq] by blast
  have 5: "\<forall>s m U r s' it. find (\<lambda>it. rt it = T) (values s) = Some it \<and> Require m env U s = Some (r, s')
          \<longrightarrow> find (\<lambda>it. rt it = T) (values s') = Some it \<and> finalized s' = finalized s
              \<and> count_list (calls s') (Provided T) = count_list (calls s) (Provided T)"
    using Require_keeps_slot by blast
  have 6: "\<forall>s U x it. find (\<lambda>it. rt it = T) (values s) = Some it
          \<longrightarrow> find (\<lambda>it. rt it = T) (values (snd (StoreValue U x s))) = Some it"
    using StoreValue_keeps_slot by blast
  have 7: "\<forall>s ts it. T \<notin> set ts \<and> find (\<lambda>it. rt it = T) (values s) = Some it
          \<longrightarrow> find (\<lambda>it. rt it = T) (values (Invalidate ts s)) = Some it"
    using Invalidate_keeps_slot by blast
  have 8: "\<forall>m U k. U \<noteq> T \<longrightarrow>
          exec (Require m env) (RequireThen T k)
            (c'\<lparr>values := values c' @ [\<lparr>rt = U, val = AnyNil, valid = False\<rparr>], calls := calls c' @ [Provided U]\<rparr>)
          = exec (Require m env) (k v)
            (c'\<lparr>values := values c' @ [\<lparr>rt = U, val = AnyNil, valid = False\<rparr>], calls := calls c' @ [Provided U]\<rparr>)"
  proof (intro allI impI)
    fix m U k
    assume "U \<noteq> T"
    let ?s = "c'\<lparr>values := values c' @ [\<lparr>rt = U, val = AnyNil, valid = False\<rparr>], calls := calls c' @ [Provided U]\<rparr>"
    have "\<not> finalized ?s" using nf' by simp
    moreover have "find (\<lambda>it. rt it = T) (values ?s) = Some \<lparr>rt = T, val = v, valid = True\<rparr>"
      using fnd by (simp add: find_append_slots)
    ultimately have "Require m env T ?s = Some (Inr v, ?s)" using rq by (simp add: Require_cached)
    then show "exec (Require m env) (RequireThen T k) ?s = exec (Require m env) (k v) ?s"
      by simp
  qed
  from 1 2 fnd nf' 3 4 5 6 7 8 show ?thesis by blast
qed

lemma demo_Require_Session:
  "Require (Suc 0) demo tSession ctx_db = Some (Inr (Obj 12), ctx_db_session)"
  by (simp add: Require_Suc_fresh Require_found ctx_db_def ctx_db_session_def)

theorem Require_resolves_once_witness:
  "Require (Suc 0) demo tDB ctx0 = Some (Inr (Obj 11), ctx_db)
   \<and> filter (\<lambda>it. rt it = tDB) (values ctx_db) = [\<lparr>rt = tDB, val = Obj 11, valid = True\<rparr>]
   \<and> count_list (calls ctx_db) (Provided tDB) = Suc (count_list (calls ctx0) (Provided tDB))
   \<and> Require 0 demo tDB ctx_db = Some (Inr (Obj 11), ctx_db)
   \<and> Require (Suc 0) demo tSession ctx_db = Some (Inr (Obj 12), ctx_db_session)
   \<and> count_list (calls ctx_db_session) (Provided tDB) = count_list (calls ctx_db) (Provided tDB)
   \<and> Require 0 demo tDB ctx_db_session = Some (Inr (Obj 11), ctx_db_session)"
proof -
  have h: "find (\<lambda>it. rt it = tDB) (values ctx0) = None" by simp
  note t = Require_resolves_once[OF h demo_Require_DB]
  from t have a: "filter (\<lambda>it. rt it = tDB) (values ctx_db) = [\<lparr>rt = tDB, val = Obj 11, valid = True\<rparr>]"
    by blast
  from t have b: "count_list (calls ctx_db) (Provided tDB) = Suc (count_list (calls ctx0) (Provided tDB))"
    by blast
  from t have f: "find (\<lambda>it. rt it = tDB) (values ctx_db) = Some \<lparr>rt = tDB, val = Obj 11, valid = True\<rparr>"
    and nf: "\<not> finalized ctx_db" by blast+
  from t f nf have c: "Require 0 demo tDB ctx_db = Some (Inr (Obj 11), ctx_db)" by blast
  from t f demo_Require_Session
  have d: "find (\<lambda>it. rt it = tDB) (values ctx_db_session) = Some \<lparr>rt = tDB, val = Obj 11, valid = True\<rparr>
      \<and> finalized ctx_db_session = finalized ctx_db
      \<and> count_list (calls ctx_db_session) (Provided tDB) = count_list (calls ctx_db) (Provided tDB)"
    by blast
  from t d nf have e: "Require 0 demo tDB ctx_db_session = Some (Inr (Obj 11), ctx_db_session)"
    by blast
  from a b c d e demo_Require_DB demo_Require_Session show ?thesis by blast
qed

lemma Require_poisoned:
  "\<not> finalized s \<Longrightarrow> requirable T \<Longrightarrow> find (\<lambda>it. rt it = T) (values s) = Some it \<Longrightarrow> \<not> valid it \<Longrightarrow>
   Require m env T s = Some (Inl (debugRecursionLoop env s T), s)"
  by (simp add: Require_found)

text \<open>
  C10: when \<open>T\<close> has no slot and \<open>Require(T)\<close> gets to the Provider and unwinds, the
  slot reserved for \<open>T\<close> stays in the store, not valid and holding nil, and it is the
  only slot for \<open>T\<close>. On any state that is not finalized and where the slot of \<open>T\<close> is
  not valid, \<open>Require(T)\<close> panics with the recursion-loop diagnostic and changes nothing;
  the slot stays through any other \<open>Require\<close>. \<open>Invalidate(T)\<close> removes it, and a
  \<open>Require(T)\<close> after that calls the Provider again.
\<close>

theorem failed_Provider_poisons_type:
  assumes "\<not> finalized c" and "requirable T"
    and "find (\<lambda>it. rt it = T) (values c) = None"
    and "Require n env T c = Some (Inl p, c')"
  shows "find (\<lambda>it. rt it = T) (values c') = Some \<lparr>rt = T, val = AnyNil, valid = False\<rparr>
    \<and> filter (\<lambda>it. rt it = T) (values c') = [\<lparr>rt = T, val = AnyNil, valid = False\<rparr>]
    \<and> \<not> finalized c'
    \<and> (\<forall>m. Require m env T c' = Some (Inl (debugRecursionLoop env c' T), c'))
    \<and> (\<forall>s m it. \<not> finalized s \<and> find (\<lambda>it. rt it = T) (values s) = Some it \<and> \<not> valid it
          \<longrightarrow> Require m env T s = Some (Inl (debugRecursionLoop env s T), s))
    \<and> (\<forall>s m U r s' it. find (\<lambda>it. rt it = T) (values s) = Some it \<and> Require m env U s = Some (r, s')
          \<longrightarrow> find (\<lambda>it. rt it = T) (values s') = Some it \<and> finalized s' = finalized s)
    \<and> find (\<lambda>it. rt it = T) (values (Invalidate [T] c')) = None
    \<and> (\<forall>m r s. Require m env T (Invalidate [T] c') = Some (r, s)
          \<longrightarrow> count_list (calls s) (Provided T) = Suc (count_list (calls c') (Provided T)))"
proof -
  from Require_fresh_shape[OF assms] obtain new where
    f': "finalized c' = finalized c"
    and v: "values c' = values c @ \<lparr>rt = T, val = AnyNil, valid = False\<rparr> # new"
    and n: "\<forall>it \<in> set new. rt it \<notin> insert T (slot_types c)"
    by auto
  have 1: "find (\<lambda>it. rt it = T) (values c') = Some \<lparr>rt = T, val = AnyNil, valid = False\<rparr>"
    using v assms(3) by (simp add: find_append_slots)
  have e1: "filter (\<lambda>it. rt it = T) (values c) = []"
    using assms(3) by (auto simp: find_None_iff filter_empty_conv)
  have e2: "filter (\<lambda>it. rt it = T) new = []"
    using n by (auto simp: filter_empty_conv)
  have 2: "filter (\<lambda>it. rt it = T) (values c') = [\<lparr>rt = T, val = AnyNil, valid = False\<rparr>]"
    using v e1 e2 by simp
  have 3: "\<not> finalized c'" using f' assms(1) by simp
  have 5: "\<forall>s m it. \<not> finalized s \<and> find (\<lambda>it. rt it = T) (values s) = Some it \<and> \<not> valid it
          \<longrightarrow> Require m env T s = Some (Inl (debugRecursionLoop env s T), s)"
    using Require_poisoned[OF _ assms(2)] by blast
  have 4: "\<forall>m. Require m env T c' = Some (Inl (debugRecursionLoop env c' T), c')"
    using Require_poisoned[OF 3 assms(2) 1] by simp
  have 6: "\<forall>s m U r s' it. find (\<lambda>it. rt it = T) (values s) = Some it \<and> Require m env U s = Some (r, s')
          \<longrightarrow> find (\<lambda>it. rt it = T) (values s') = Some it \<and> finalized s' = finalized s"
    using Require_keeps_slot by blast
  have 7: "find (\<lambda>it. rt it = T) (values (Invalidate [T] c')) = None"
    by (rule Invalidate_find) simp
  have nfi: "\<not> finalized (Invalidate [T] c')" using 3 by (simp add: Invalidate_def)
  have ci: "calls (Invalidate [T] c') = calls c'" by (simp add: Invalidate_def)
  have 8: "\<forall>m r s. Require m env T (Invalidate [T] c') = Some (r, s)
          \<longrightarrow> count_list (calls s) (Provided T) = Suc (count_list (calls c') (Provided T))"
    using Require_fresh_count[OF nfi assms(2) 7] ci by simp
  from 1 2 3 4 5 6 7 8 show ?thesis by blast
qed

lemma demo_Require_Private:
  "Require (Suc 0) demo tPrivate ctx0 =
     Some (Inl (PanicWith (ProtocolError 10 (Error (-32001) ''Not authenticated'' None))), ctx_private)"
  by (simp add: Require_Suc_fresh ctx_private_def)

theorem failed_Provider_poisons_type_witness:
  "Require (Suc 0) demo tPrivate ctx0 =
     Some (Inl (PanicWith (ProtocolError 10 (Error (-32001) ''Not authenticated'' None))), ctx_private)
   \<and> find (\<lambda>it. rt it = tPrivate) (values ctx_private) = Some \<lparr>rt = tPrivate, val = AnyNil, valid = False\<rparr>
   \<and> Require (Suc 0) demo tPrivate ctx_private = Some (Inl (debugRecursionLoop demo ctx_private tPrivate), ctx_private)
   \<and> find (\<lambda>it. rt it = tPrivate) (values (Invalidate [tPrivate] ctx_private)) = None"
proof -
  have h1: "\<not> finalized ctx0" and h2: "requirable tPrivate"
    and h3: "find (\<lambda>it. rt it = tPrivate) (values ctx0) = None" by simp_all
  note t = failed_Provider_poisons_type[OF h1 h2 h3 demo_Require_Private]
  from t have a: "find (\<lambda>it. rt it = tPrivate) (values ctx_private) = Some \<lparr>rt = tPrivate, val = AnyNil, valid = False\<rparr>"
    by blast
  from t have b: "Require (Suc 0) demo tPrivate ctx_private = Some (Inl (debugRecursionLoop demo ctx_private tPrivate), ctx_private)"
    by blast
  from t have c: "find (\<lambda>it. rt it = tPrivate) (values (Invalidate [tPrivate] ctx_private)) = None"
    by blast
  from a b c demo_Require_Private show ?thesis by blast
qed

text \<open>
  C2, on the code: on a fresh context \<open>Require(A)\<close>, where the Provider of \<open>A\<close> requires
  \<open>B\<close> and the Provider of \<open>B\<close> requires \<open>A\<close>. The panic is the recursion-loop
  diagnostic; the slots of \<open>A\<close> and \<open>B\<close> are the ones not valid, and the chain printed
  is the context's own type, the one valid slot before them.
\<close>

theorem recursion_diagnostic_lists_valid_slots:
  "Require (Suc (Suc 0)) demo tA ctx0 = Some (Inl (debugRecursionLoop demo ctx_cycle tA), ctx_cycle)
   \<and> debugRecursionLoop demo ctx_cycle tA =
       PanicMsg ''recursion loop while resolving *app.A:\<newline>-----------\<newline>*jonson.Context\<newline>-------------\<newline>goroutine 1 [running]''
   \<and> recursion_chain (values ctx_cycle) = [''*jonson.Context'']
   \<and> map (\<lambda>it. type_string (rt it)) (filter (\<lambda>it. \<not> valid it) (values ctx_cycle)) = [''*app.A'', ''*app.B'']"
proof (intro conjI)
  show "Require (Suc (Suc 0)) demo tA ctx0 = Some (Inl (debugRecursionLoop demo ctx_cycle tA), ctx_cycle)"
    by (simp add: Require_Suc_fresh Require_found ctx_cycle_def ctx0_eq)
  show "debugRecursionLoop demo ctx_cycle tA =
       PanicMsg ''recursion loop while resolving *app.A:\<newline>-----------\<newline>*jonson.Context\<newline>-------------\<newline>goroutine 1 [running]''"
    by (simp add: debugRecursionLoop_def ctx_cycle_def tA_def TypeContext_def)
  show "recursion_chain (values ctx_cycle) = [''*jonson.Context'']"
    by (simp add: ctx_cycle_def TypeContext_def)
  show "map (\<lambda>it. type_string (rt it)) (filter (\<lambda>it. \<not> valid it) (values ctx_cycle)) = [''*app.A'', ''*app.B'']"
    by (simp add: ctx_cycle_def tA_def tB_def)
qed

end
